theory Spec2Isabelle
  imports Complex_Main "HOL-Library.Log_Nat" "HOL-Library.AList"
begin

section \<open>Strings and values of the host language\<close>

text \<open>
  The payroll job engine (the module exporting \<open>startPayrollJob\<close>, \<open>getPayrollJob\<close> and
  \<open>cleanupOldJobs\<close>) is TypeScript. A string of the source is a sequence of UTF-16 code
  units; the model keeps it as the list of their numeric values, so that the Korean labels
  the portal sends and the messages the engine writes are ordinary strings of the model.
  \<open>S\<close> turns an ASCII literal into such a string.
\<close>

type_synonym jstring = "nat list"

definition S :: "string \<Rightarrow> jstring" where
  "S s = map of_char s"

text \<open>
  The values \<open>JSON.parse\<close> can produce, and \<open>undefined\<close> for a property that is not there.
  \<open>JNum n\<close> is a number with the integral value \<open>n\<close>, in the range where the number is
  rendered as its decimal numeral (magnitude below \<open>10^21\<close>); numbers with a fractional part
  are outside the model. \<open>JObj\<close> lists the own properties of a plain object, each key once.
\<close>

datatype jsval =
    JUndefined
  | JNull
  | JBool bool
  | JNum int
  | JStr jstring
  | JArr "jsval list"
  | JObj "(jstring \<times> jsval) list"

text \<open>A thrown \<open>Error\<close> (or \<open>TypeError\<close>), kept as its \<open>message\<close>.\<close>

datatype exn = Error jstring

text \<open>
  A number of the source is an IEEE 754 binary64 value: \<open>Fin q\<close> is the finite value \<open>q\<close>
  (the sign of zero is not kept), the other three are the special values.
\<close>

datatype jsnum = NaN | PInf | NInf | Fin rat

subsection \<open>White space and \<open>trim\<close>\<close>

text \<open>
  \<open>String.prototype.trim\<close> and the \<open>\s\<close> class strip the WhiteSpace and LineTerminator
  code points: TAB, LF, VT, FF, CR, SP, NBSP, U+1680, U+2000..U+200A, U+2028, U+2029, U+202F,
  U+205F, U+3000 and U+FEFF.
\<close>

definition isWhiteSpace :: "nat \<Rightarrow> bool" where
  "isWhiteSpace c \<longleftrightarrow>
     c = 9 \<or> c = 10 \<or> c = 11 \<or> c = 12 \<or> c = 13 \<or> c = 32 \<or> c = 160 \<or> c = 5760 \<or>
     (8192 \<le> c \<and> c \<le> 8202) \<or> c = 8232 \<or> c = 8233 \<or> c = 8239 \<or> c = 8287 \<or>
     c = 12288 \<or> c = 65279"

definition trim :: "jstring \<Rightarrow> jstring" where
  "trim s = rev (dropWhile isWhiteSpace (rev (dropWhile isWhiteSpace s)))"

definition isDigit :: "nat \<Rightarrow> bool" where
  "isDigit c \<longleftrightarrow> 48 \<le> c \<and> c \<le> 57"

subsection \<open>\<open>String(value)\<close>\<close>

fun digits_of :: "nat \<Rightarrow> jstring" where
  "digits_of n = (if n < 10 then [48 + n] else digits_of (n div 10) @ [48 + n mod 10])"

declare digits_of.simps [simp del]

definition NumberToString :: "int \<Rightarrow> jstring" where
  "NumberToString n = (if n < 0 then 45 # digits_of (nat (- n)) else digits_of (nat n))"

text \<open>\<open>Array.prototype.join\<close> with the default separator, a comma.\<close>

definition join :: "jstring list \<Rightarrow> jstring" where
  "join xs = (case xs of [] \<Rightarrow> [] | y # ys \<Rightarrow> foldl (\<lambda>acc x. acc @ [44] @ x) y ys)"

fun collect :: "(exn + 'a) list \<Rightarrow> exn + 'a list" where
  "collect [] = Inr []"
| "collect (x # xs) =
     (case x of
        Inl e \<Rightarrow> Inl e
      | Inr v \<Rightarrow> (case collect xs of Inl e \<Rightarrow> Inl e | Inr vs \<Rightarrow> Inr (v # vs)))"

text \<open>
  \<open>String(v)\<close>. An array is joined, with \<open>null\<close> and \<open>undefined\<close> elements rendered empty. A
  plain object is \<open>[object Object]\<close>, unless it has an own property \<open>toString\<close>: that value
  (parsed from JSON) is not callable, the inherited \<open>valueOf\<close> returns the object itself,
  and the conversion throws a TypeError.
\<close>

fun ToString :: "jsval \<Rightarrow> exn + jstring" where
  "ToString JUndefined = Inr (S ''undefined'')"
| "ToString JNull = Inr (S ''null'')"
| "ToString (JBool b) = Inr (if b then S ''true'' else S ''false'')"
| "ToString (JNum n) = Inr (NumberToString n)"
| "ToString (JStr s) = Inr s"
| "ToString (JArr xs) =
     (case collect (map (\<lambda>x. if x = JUndefined \<or> x = JNull then Inr [] else ToString x) xs) of
        Inl e \<Rightarrow> Inl e
      | Inr parts \<Rightarrow> Inr (join parts))"
| "ToString (JObj kvs) =
     (if S ''toString'' \<in> fst ` set kvs
      then Inl (Error (S ''Cannot convert object to primitive value''))
      else Inr (S ''[object Object]''))"

subsection \<open>\<open>Number(string)\<close> and \<open>Math.round\<close>\<close>

definition pow2 :: "int \<Rightarrow> rat" where
  "pow2 e = 2 powi e"

definition pow10 :: "int \<Rightarrow> rat" where
  "pow10 e = 10 powi e"

text \<open>The binary exponent of a positive rational: \<open>2^e \<le> a < 2^(e+1)\<close>.\<close>

definition ilog2 :: "rat \<Rightarrow> int" where
  "ilog2 a = (let (p, q) = quotient_of a; d = bitlen p - bitlen q
              in if pow2 d \<le> a then d else d - 1)"

definition round_half_even :: "rat \<Rightarrow> int" where
  "round_half_even x =
     (let f = \<lfloor>x\<rfloor>; r = x - of_int f
      in if r < 1 / 2 then f else if 1 / 2 < r then f + 1 else if even f then f else f + 1)"

text \<open>
  The binary64 value of a real number: round to nearest, ties to even, on a significand of
  53 bits, with gradual underflow below \<open>2^-1022\<close> and overflow to infinity from \<open>2^1024\<close>.
\<close>

definition float_round :: "rat \<Rightarrow> jsnum" where
  "float_round x =
     (if x = 0 then Fin 0
      else let a = \<bar>x\<bar>;
               e = max (ilog2 a) (- 1022);
               u = pow2 (e - 52);
               r = of_int (round_half_even (a / u)) * u
           in if pow2 1024 \<le> r then (if 0 < x then PInf else NInf)
              else Fin (if 0 < x then r else - r))"

definition digitsValue :: "jstring \<Rightarrow> int" where
  "digitsValue ds = foldl (\<lambda>acc c. acc * 10 + (int c - 48)) 0 ds"

definition isHexDigit :: "nat \<Rightarrow> bool" where
  "isHexDigit c \<longleftrightarrow> isDigit c \<or> (97 \<le> c \<and> c \<le> 102) \<or> (65 \<le> c \<and> c \<le> 70)"

definition hexDigitValue :: "nat \<Rightarrow> int" where
  "hexDigitValue c = (if isDigit c then int c - 48 else if 97 \<le> c then int c - 87 else int c - 55)"

definition radixValue :: "int \<Rightarrow> jstring \<Rightarrow> int" where
  "radixValue b ds = foldl (\<lambda>acc c. acc * b + hexDigitValue c) 0 ds"

text \<open>
  NonDecimalIntegerLiteral: \<open>0x\<close>, \<open>0o\<close> or \<open>0b\<close> (either case) and at least one digit of
  that radix; no sign.
\<close>

definition NonDecimalIntegerLiteral :: "jstring \<Rightarrow> int option" where
  "NonDecimalIntegerLiteral s =
     (case s of
        z # p # ds \<Rightarrow>
          if z = 48 \<and> ds \<noteq> [] then
            if (p = 120 \<or> p = 88) \<and> list_all isHexDigit ds then Some (radixValue 16 ds)
            else if (p = 111 \<or> p = 79) \<and> list_all (\<lambda>c. 48 \<le> c \<and> c \<le> 55) ds
              then Some (radixValue 8 ds)
            else if (p = 98 \<or> p = 66) \<and> list_all (\<lambda>c. c = 48 \<or> c = 49) ds
              then Some (radixValue 2 ds)
            else None
          else None
      | _ \<Rightarrow> None)"

text \<open>ExponentPart after its \<open>e\<close>: an optional sign and at least one digit.\<close>

definition ExponentPart :: "jstring \<Rightarrow> int option" where
  "ExponentPart s =
     (let (neg, ds) = (case s of
                         c # r \<Rightarrow> if c = 43 then (False, r) else if c = 45 then (True, r)
                                  else (False, s)
                       | [] \<Rightarrow> (False, s))
      in if ds \<noteq> [] \<and> list_all isDigit ds
         then Some (if neg then - digitsValue ds else digitsValue ds)
         else None)"

text \<open>
  StrUnsignedDecimalLiteral without \<open>Infinity\<close>: digits, an optional point with digits (at
  least one digit on one side of it), an optional exponent. The result is the mathematical
  value of the literal.
\<close>

definition StrUnsignedDecimalLiteral :: "jstring \<Rightarrow> rat option" where
  "StrUnsignedDecimalLiteral s =
     (let ip = takeWhile isDigit s;
          r1 = dropWhile isDigit s;
          (fp, r2) = (case r1 of
                        c # t \<Rightarrow> if c = 46 then (takeWhile isDigit t, dropWhile isDigit t)
                                 else ([], r1)
                      | [] \<Rightarrow> ([], r1));
          mant = of_int (digitsValue (ip @ fp)) / 10 ^ length fp
      in if ip = [] \<and> fp = [] then None
         else (case r2 of
                 [] \<Rightarrow> Some mant
               | c # t \<Rightarrow>
                   if c = 101 \<or> c = 69
                   then (case ExponentPart t of None \<Rightarrow> None | Some e \<Rightarrow> Some (mant * pow10 e))
                   else None))"

definition StrDecimalLiteral :: "bool \<Rightarrow> jstring \<Rightarrow> jsnum" where
  "StrDecimalLiteral neg s =
     (if s = S ''Infinity'' then (if neg then NInf else PInf)
      else (case StrUnsignedDecimalLiteral s of
              None \<Rightarrow> NaN
            | Some q \<Rightarrow> float_round (if neg then - q else q)))"

text \<open>
  \<open>Number(s)\<close> for a string: surrounding white space is dropped, the empty string is 0, a
  numeric literal is rounded to binary64, anything else is NaN.
\<close>

definition StringToNumber :: "jstring \<Rightarrow> jsnum" where
  "StringToNumber str =
     (let s = trim str
      in if s = [] then Fin 0
         else (case NonDecimalIntegerLiteral s of
                 Some n \<Rightarrow> float_round (of_int n)
               | None \<Rightarrow>
                   (case s of
                      c # r \<Rightarrow> if c = 43 then StrDecimalLiteral False r
                               else if c = 45 then StrDecimalLiteral True r
                               else StrDecimalLiteral False s
                    | [] \<Rightarrow> NaN)))"

text \<open>\<open>Math.round\<close> of a finite number: the nearest integer, a tie going up.\<close>

definition Math_round :: "rat \<Rightarrow> int" where
  "Math_round q = \<lfloor>q + 1 / 2\<rfloor>"

text \<open>
  The characters of the numeric literals that have a finite value: the digits of the three
  radixes, the signs, the point, the exponent letter (a hexadecimal digit too) and the radix
  letters.
\<close>

definition numericChar :: "nat \<Rightarrow> bool" where
  "numericChar c \<longleftrightarrow>
     isHexDigit c \<or> c = 43 \<or> c = 45 \<or> c = 46 \<or> c = 120 \<or> c = 88 \<or> c = 111 \<or> c = 79"

section \<open>The field normalizer\<close>

record Txn =
  year :: int
  month :: int
  date :: jstring
  category :: jstring
  group :: jstring
  gross :: int
  deductions :: int
  net :: int
  currency :: jstring
  seqnr :: jstring
  fpbeg :: jstring
  fpend :: jstring

text \<open>\<open>z2\<close>: the decimal numeral of the month, padded on the left with zeros to two places.\<close>

definition z2 :: "int \<Rightarrow> jstring" where
  "z2 m = (let s = NumberToString m in replicate (2 - length s) 48 @ s)"

definition parseIntMoney :: "jsval \<Rightarrow> exn + int" where
  "parseIntMoney val =
     (if val = JNull \<or> val = JUndefined then Inr 0
      else (case ToString val of
              Inl e \<Rightarrow> Inl e
            | Inr str \<Rightarrow>
                let stripped = trim (filter (\<lambda>c. c \<noteq> 44) str)
                in if stripped = [] then Inr 0
                   else (case StringToNumber stripped of
                           Fin num \<Rightarrow> Inr (Math_round num)
                         | _ \<Rightarrow> Inr 0)))"

text \<open>
  \<open>record[key]\<close> on a row. A plain object gives its own property; the aliases looked up by
  the normalizer are not names of inherited properties, so any other row (an array passes
  the \<open>typeof row === 'object'\<close> filter) gives \<open>undefined\<close>.
\<close>

definition getProp :: "jsval \<Rightarrow> jstring \<Rightarrow> jsval" where
  "getProp record key =
     (case record of
        JObj kvs \<Rightarrow> (case map_of kvs key of Some v \<Rightarrow> v | None \<Rightarrow> JUndefined)
      | _ \<Rightarrow> JUndefined)"

fun firstPresent :: "jsval \<Rightarrow> jstring list \<Rightarrow> jsval" where
  "firstPresent record [] = JUndefined"
| "firstPresent record (key # keys) =
     (let value = getProp record key
      in if value \<noteq> JUndefined \<and> value \<noteq> JNull \<and> value \<noteq> JStr [] then value
         else firstPresent record keys)"

text \<open>The test \<open>/^[0-9]{4}-[0-9]{2}-[0-9]{2}$/\<close>.\<close>

definition isIsoDate :: "jstring \<Rightarrow> bool" where
  "isIsoDate s =
     (case s of
        [y1, y2, y3, y4, h1, m1, m2, h2, d1, d2] \<Rightarrow>
          isDigit y1 \<and> isDigit y2 \<and> isDigit y3 \<and> isDigit y4 \<and> h1 = 45 \<and>
          isDigit m1 \<and> isDigit m2 \<and> h2 = 45 \<and> isDigit d1 \<and> isDigit d2
      | _ \<Rightarrow> False)"

definition normalizeDate :: "jsval \<Rightarrow> exn + jstring" where
  "normalizeDate val =
     (if val = JNull \<or> val = JUndefined then Inr []
      else (case ToString val of
              Inl e \<Rightarrow> Inl e
            | Inr str \<Rightarrow>
                let raw = trim str
                in if raw = [] then Inr []
                   else let digits = filter isDigit raw
                        in if length digits = 8
                           then Inr (take 4 digits @ [45] @ take 2 (drop 4 digits) @ [45]
                                     @ drop 6 digits)
                           else let normalized = map (\<lambda>c. if c = 46 \<or> c = 47 then 45 else c) raw
                                in Inr (if isIsoDate normalized then normalized else raw)))"

text \<open>Eight digits written as \<open>YYYY-MM-DD\<close>.\<close>

definition hyphenate :: "jstring \<Rightarrow> jstring" where
  "hyphenate ds = take 4 ds @ [45] @ take 2 (drop 4 ds) @ [45] @ drop 6 ds"

text \<open>Sequencing of steps that may throw.\<close>

definition andThen :: "exn + 'a \<Rightarrow> ('a \<Rightarrow> exn + 'b) \<Rightarrow> exn + 'b" where
  "andThen r f = (case r of Inl e \<Rightarrow> Inl e | Inr v \<Rightarrow> f v)"

text \<open>\<open>v ?? d\<close>.\<close>

definition orElse :: "jsval \<Rightarrow> jsval \<Rightarrow> jsval" where
  "orElse v d = (if v = JUndefined \<or> v = JNull then d else v)"

text \<open>The alias lists, in the order of the source.\<close>

definition DATE_KEYS :: "jstring list" where
  "DATE_KEYS = [S ''rqdatTxt'', S ''rqdat'', S ''rqDt'', S ''payDate'', S ''paydate'', S ''payDt'',
                S ''paydt'', S ''payday'', S ''payDay'', S ''pdate'', S ''payYmd'']"

definition DATE_FALLBACK_KEYS :: "jstring list" where
  "DATE_FALLBACK_KEYS = [S ''fpend'', S ''fpEnd'', S ''fpendTxt'']"

definition CATEGORY_KEYS :: "jstring list" where
  "CATEGORY_KEYS = [S ''paytyTxt'', S ''paytyNm'', S ''payTypeNm'', S ''payType'', S ''payName'',
                    S ''payNm'', S ''category'']"

definition GROUP_KEYS :: "jstring list" where
  "GROUP_KEYS = [S ''paygubun'', S ''payGubun'', S ''paygubunCd'', S ''payGroup'', S ''group'']"

definition GROSS_KEYS :: "jstring list" where
  "GROSS_KEYS = [S ''bet01Txt'', S ''bet01'', S ''gross'', S ''grossAmt'', S ''totGross'']"

definition DEDUCTIONS_KEYS :: "jstring list" where
  "DEDUCTIONS_KEYS = [S ''bet07Txt'', S ''bet07'', S ''deductions'', S ''deduction'',
                      S ''totDeduction'']"

definition NET_KEYS :: "jstring list" where
  "NET_KEYS = [S ''bet08Txt'', S ''bet08'', S ''net'', S ''netAmt'', S ''totNet'', S ''payAmt'']"

definition CURRENCY_KEYS :: "jstring list" where
  "CURRENCY_KEYS = [S ''waers'', S ''currency'', S ''curr'', S ''currCd'']"

definition SEQNR_KEYS :: "jstring list" where
  "SEQNR_KEYS = [S ''seqnr'', S ''seqNo'', S ''seq'', S ''seqnrTxt'', S ''seqno'']"

definition FPBEG_KEYS :: "jstring list" where
  "FPBEG_KEYS = [S ''fpbeg'', S ''fpBeg'', S ''fromDate'', S ''begda'', S ''fpbegTxt'']"

definition FPEND_KEYS :: "jstring list" where
  "FPEND_KEYS = [S ''fpend'', S ''fpEnd'', S ''toDate'', S ''endda'', S ''fpendTxt'']"

text \<open>A value that \<open>firstPresent\<close> accepts: not \<open>undefined\<close>, not \<open>null\<close>, not the empty string.\<close>

definition present :: "jsval \<Rightarrow> bool" where
  "present v \<longleftrightarrow> v \<noteq> JUndefined \<and> v \<noteq> JNull \<and> v \<noteq> JStr []"

text \<open>The first day of the requested month, the last resort for the date of a row.\<close>

definition firstOfMonth :: "int \<Rightarrow> int \<Rightarrow> jstring" where
  "firstOfMonth yr mo = NumberToString yr @ S ''-'' @ z2 mo @ S ''-01''"

text \<open>The date of a row: \<open>a || b || c\<close>, each operand evaluated only when the ones before are empty.\<close>

definition rowDate :: "int \<Rightarrow> int \<Rightarrow> jsval \<Rightarrow> exn + jstring" where
  "rowDate yr mo row =
     andThen (normalizeDate (firstPresent row DATE_KEYS)) (\<lambda>d1.
       if d1 \<noteq> [] then Inr d1
       else andThen (normalizeDate (firstPresent row DATE_FALLBACK_KEYS)) (\<lambda>d2.
         if d2 \<noteq> [] then Inr d2
         else Inr (NumberToString yr @ S ''-'' @ z2 mo @ S ''-01'')))"

text \<open>The body of the \<open>map\<close> callback of \<open>normalizeRows\<close>.\<close>

definition normalizeRow :: "int \<Rightarrow> int \<Rightarrow> jsval \<Rightarrow> exn + Txn" where
  "normalizeRow yr mo row =
     andThen (rowDate yr mo row) (\<lambda>date'.
     andThen (ToString (orElse (firstPresent row CATEGORY_KEYS) (JStr (S ''UNKNOWN'')))) (\<lambda>c.
     andThen (ToString (orElse (firstPresent row GROUP_KEYS) (JStr []))) (\<lambda>g.
     andThen (parseIntMoney (firstPresent row GROSS_KEYS)) (\<lambda>gross'.
     andThen (parseIntMoney (firstPresent row DEDUCTIONS_KEYS)) (\<lambda>deductions'.
     andThen (parseIntMoney (firstPresent row NET_KEYS)) (\<lambda>net'.
     andThen (ToString (orElse (firstPresent row CURRENCY_KEYS) (JStr (S ''KRW'')))) (\<lambda>cur.
     andThen (ToString (orElse (firstPresent row SEQNR_KEYS) (JStr []))) (\<lambda>sq.
     andThen (normalizeDate (firstPresent row FPBEG_KEYS)) (\<lambda>fpbeg'.
     andThen (normalizeDate (firstPresent row FPEND_KEYS)) (\<lambda>fpend'.
       Inr \<lparr> year = yr, month = mo, date = date',
             category = (if trim c \<noteq> [] then trim c else S ''UNKNOWN''),
             group = trim g,
             gross = gross', deductions = deductions', net = net',
             currency = (if trim cur \<noteq> [] then trim cur else S ''KRW''),
             seqnr = trim sq, fpbeg = fpbeg', fpend = fpend' \<rparr>))))))))))"

text \<open>\<open>row !== null && typeof row === 'object'\<close>: plain objects and arrays.\<close>

definition isObject :: "jsval \<Rightarrow> bool" where
  "isObject row = (case row of JObj kvs \<Rightarrow> True | JArr xs \<Rightarrow> True | _ \<Rightarrow> False)"

definition normalizeRows :: "int \<Rightarrow> int \<Rightarrow> jsval list \<Rightarrow> exn + Txn list" where
  "normalizeRows yr mo rows = collect (map (normalizeRow yr mo) (filter isObject rows))"

section \<open>Jobs\<close>

datatype JobStatus = S_pending | S_auth_wait | S_fetching | S_completed | S_error

text \<open>
  The sums of a \<open>Summary\<close> are additions of numbers, each rounded to binary64; the count
  stays far below \<open>2^53\<close> and is exact.
\<close>

record Summary =
  sum_gross :: jsnum
  sum_deductions :: jsnum
  sum_net :: jsnum
  sum_count :: nat

record ScrapeParams =
  username :: jstring
  password :: jstring
  pernr :: jstring
  years :: "int list"
  months :: "int list"
  waitAuthSeconds :: int
  pollIntervalSeconds :: int

record JobState =
  job_id :: jstring
  status :: JobStatus
  message :: jstring
  totalMonths :: nat
  processedMonths :: nat
  transactions :: "Txn list"
  summary :: "Summary option"
  error :: "jstring option"
  createdAt :: int
  updatedAt :: int

record JobSnapshot =
  snap_id :: jstring
  snap_status :: JobStatus
  snap_message :: jstring
  snap_totalMonths :: nat
  snap_processedMonths :: nat
  snap_summary :: "Summary option"
  snap_error :: "jstring option"
  snap_transactions :: "Txn list option"

text \<open>A \<open>Partial<JobState>\<close> as the engine builds them: a field is present or not.\<close>

record JobPatch =
  p_status :: "JobStatus option"
  p_message :: "jstring option"
  p_totalMonths :: "nat option"
  p_processedMonths :: "nat option"
  p_transactions :: "Txn list option"
  p_summary :: "Summary option"
  p_error :: "jstring option"

definition patch :: JobPatch where
  "patch = \<lparr> p_status = None, p_message = None, p_totalMonths = None, p_processedMonths = None,
             p_transactions = None, p_summary = None, p_error = None \<rparr>"

text \<open>\<open>Object.assign(job, patch)\<close>.\<close>

definition assign :: "JobState \<Rightarrow> JobPatch \<Rightarrow> JobState" where
  "assign job p =
     job \<lparr> status := (case p_status p of Some v \<Rightarrow> v | None \<Rightarrow> status job),
           message := (case p_message p of Some v \<Rightarrow> v | None \<Rightarrow> message job),
           totalMonths := (case p_totalMonths p of Some v \<Rightarrow> v | None \<Rightarrow> totalMonths job),
           processedMonths :=
             (case p_processedMonths p of Some v \<Rightarrow> v | None \<Rightarrow> processedMonths job),
           transactions := (case p_transactions p of Some v \<Rightarrow> v | None \<Rightarrow> transactions job),
           summary := (case p_summary p of Some v \<Rightarrow> Some v | None \<Rightarrow> summary job),
           error := (case p_error p of Some v \<Rightarrow> Some v | None \<Rightarrow> error job) \<rparr>"

subsection \<open>The world a job runs in\<close>

datatype http_method = GET | POST

record request =
  verb :: http_method
  url :: jstring
  headers :: "(jstring \<times> jstring) list"
  form :: "(jstring \<times> jstring) list"

record response =
  statusCode :: nat
  body :: jstring

text \<open>What a request of the client comes back with: a thrown error, or a response.\<close>

datatype http_result = Failure jstring | Response nat jstring

text \<open>
  Everything the engine does not decide. \<open>http n\<close> is the outcome of the \<open>n\<close>-th request the
  job's client issues (cookies and redirects are the portal's and the client's business);
  \<open>lag n\<close> is the time in milliseconds that passes at the \<open>n\<close>-th suspension of the job (an
  awaited request or timer) on top of a timer's delay. The library calls are parameters:
  \<open>json_parse\<close> is \<open>JSON.parse\<close>, \<open>meta_content html name\<close> is the \<open>content\<close> attribute
  that the HTML parser finds for \<open>meta[name="name"]\<close>, \<open>base64\<close> is the encoding of the
  UTF-8 bytes of a string.
\<close>

record env =
  http :: "nat \<Rightarrow> http_result"
  lag :: "nat \<Rightarrow> nat"
  json_parse :: "jstring \<Rightarrow> exn + jsval"
  meta_content :: "jstring \<Rightarrow> jstring \<Rightarrow> jstring option"
  base64 :: "jstring \<Rightarrow> jstring"

text \<open>
  The state: \<open>clock\<close> is \<open>Date.now()\<close>, \<open>ticks\<close> counts the suspensions so far, \<open>sent\<close> lists
  the requests issued so far, \<open>store\<close> is the process-wide job map (insertion-ordered, each
  key once). \<open>hist\<close> is not in the source: it records the job record after every write to
  the store, so that properties of all intermediate states can be stated.
\<close>

record world =
  clock :: int
  ticks :: nat
  sent :: "request list"
  store :: "(jstring \<times> JobState) list"
  hist :: "JobState list"

definition updateJob :: "jstring \<Rightarrow> JobPatch \<Rightarrow> world \<Rightarrow> world" where
  "updateJob jobId p w =
     (case map_of (store w) jobId of
        None \<Rightarrow> w
      | Some job \<Rightarrow>
          let job' = (assign job p) \<lparr> updatedAt := clock w \<rparr>
          in w \<lparr> store := AList.update jobId job' (store w), hist := hist w @ [job'] \<rparr>)"

definition sleep :: "env \<Rightarrow> int \<Rightarrow> world \<Rightarrow> world" where
  "sleep E ms w = w \<lparr> clock := clock w + ms + int (lag E (ticks w)), ticks := Suc (ticks w) \<rparr>"

text \<open>An awaited \<open>client.get\<close> or \<open>client.post\<close>.\<close>

definition send :: "env \<Rightarrow> request \<Rightarrow> world \<Rightarrow> (exn + response) \<times> world" where
  "send E rq w =
     (let w' = w \<lparr> clock := clock w + int (lag E (ticks w)), ticks := Suc (ticks w),
                   sent := sent w @ [rq] \<rparr>
      in (case http E (length (sent w)) of
            Failure m \<Rightarrow> (Inl (Error m), w')
          | Response code text \<Rightarrow> (Inr \<lparr> statusCode = code, body = text \<rparr>, w')))"

subsection \<open>Constants\<close>

definition BASE :: jstring where "BASE = S ''https://myehr.hmc.co.kr''"
definition ENDPOINT :: jstring where "ENDPOINT = BASE @ S ''/saly/selectPayDetailsH.do''"
definition REFERER :: jstring where "REFERER = BASE @ S ''/saly/PayslipForYearHInitPage.do''"
definition LOGIN_PAGE :: jstring where "LOGIN_PAGE = BASE @ S ''/login.do''"
definition LOGIN_PROC :: jstring where "LOGIN_PROC = BASE @ S ''/loginProcess.do''"
definition PAYS_INIT :: jstring where "PAYS_INIT = BASE @ S ''/saly/PayslipForYearHInitPage.do''"
definition LOGIN_SUCCESS :: jstring where "LOGIN_SUCCESS = BASE @ S ''/loginSuccess.do''"
definition NOTICE_POP :: jstring where "NOTICE_POP = BASE @ S ''/symt/selectSystemNoticePopup.do''"

text \<open>
  The Korean texts of the source, as code units. In English: preparing the job; connecting
  to the login page; no \<open>_csrf\<close> token on the login page; login submitted, approve on the
  phone; mobile approval confirmed, collecting; login failed, check id and password; token
  refreshed, collecting goes on; "processing data... ("; ") -> "; expected JSON but HTML was
  returned; "error ("; "processing done! total "; " items fetched."; "the job failed: ".
\<close>

definition MSG_PREPARING :: jstring where
  "MSG_PREPARING = [51089, 50629, 51012, 32, 51456, 48708, 32, 51473, 51077, 45768, 45796, 46, 46, 46]"

definition MSG_CONNECTING :: jstring where
  "MSG_CONNECTING = [47196, 44536, 51064, 32, 54168, 51060, 51648, 50640, 32, 51217, 49549, 54633,
                     45768, 45796, 46, 46, 46]"

definition MSG_NO_LOGIN_TOKEN :: jstring where
  "MSG_NO_LOGIN_TOKEN = [47196, 44536, 51064, 32, 54168, 51060, 51648, 50640, 49436, 32, 95, 99, 115,
                         114, 102, 32, 53664, 53360, 51012, 32, 52286, 51012, 32, 49688, 32, 50630,
                         49845, 45768, 45796, 46]"

definition MSG_AUTH_WAIT :: jstring where
  "MSG_AUTH_WAIT = [47196, 44536, 51064, 32, 51221, 48372, 47484, 32, 51228, 52636, 54664, 49845,
                    45768, 45796, 46, 32, 55092, 45824, 54256, 50640, 49436, 32, 49849, 51064, 51012,
                    32, 51652, 54665, 54644, 32, 51452, 49464, 50836, 46]"

definition MSG_APPROVED :: jstring where
  "MSG_APPROVED = [47784, 48148, 51068, 32, 51064, 51613, 51060, 32, 54869, 51064, 46104, 50632,
                   49845, 45768, 45796, 46, 32, 44553, 50668, 32, 45936, 51060, 53552, 47484, 32,
                   49688, 51665, 54633, 45768, 45796, 46]"

definition MSG_LOGIN_FAILED :: jstring where
  "MSG_LOGIN_FAILED = [47196, 44536, 51064, 50640, 32, 49892, 54056, 54664, 49845, 45768, 45796, 46,
                       32, 50500, 51060, 46356, 32, 46608, 45716, 32, 48708, 48128, 48264, 54840,
                       47484, 32, 45796, 49884, 32, 54869, 51064, 54644, 32, 51452, 49464, 50836, 46]"

definition MSG_REFRESHED :: jstring where
  "MSG_REFRESHED = [52572, 49888, 32, 51064, 51613, 32, 53664, 53360, 51012, 32, 44081, 49888, 54664,
                    49845, 45768, 45796, 46, 32, 45936, 51060, 53552, 47484, 32, 44228, 49549, 32,
                    49688, 51665, 54633, 45768, 45796, 46]"

definition MSG_PROGRESS :: jstring where
  "MSG_PROGRESS = [45936, 51060, 53552, 32, 52376, 47532, 51473, 46, 46, 46, 32, 40]"

definition MSG_ARROW :: jstring where
  "MSG_ARROW = [41, 32, 8594, 32]"

definition MSG_HTML_AGAIN :: jstring where
  "MSG_HTML_AGAIN = [74, 83, 79, 78, 32, 51025, 45813, 51012, 32, 44592, 45824, 54664, 51648, 47564,
                     32, 72, 84, 77, 76, 51060, 32, 48152, 54872, 46104, 50632, 49845, 45768, 45796, 46]"

definition MSG_PERIOD_ERROR :: jstring where
  "MSG_PERIOD_ERROR = [50724, 47448, 32, 48156, 49373, 32, 40]"

definition MSG_DONE_1 :: jstring where
  "MSG_DONE_1 = [45936, 51060, 53552, 32, 52376, 47532, 32, 50756, 47308, 33, 32, 52509, 32]"

definition MSG_DONE_2 :: jstring where
  "MSG_DONE_2 = [44148, 51012, 32, 44032, 51256, 50772, 49845, 45768, 45796, 46]"

definition MSG_JOB_FAILED :: jstring where
  "MSG_JOB_FAILED = [51089, 50629, 51060, 32, 49892, 54056, 54664, 49845, 45768, 45796, 58, 32]"

text \<open>
  The words of the login-failure patterns: login, failure, id, check, password, again, "do
  not match", "the information entered is not correct".
\<close>

definition KO_LOGIN :: jstring where "KO_LOGIN = [47196, 44536, 51064]"
definition KO_FAILURE :: jstring where "KO_FAILURE = [49892, 54056]"
definition KO_ID :: jstring where "KO_ID = [50500, 51060, 46356]"
definition KO_CHECK :: jstring where "KO_CHECK = [54869, 51064]"
definition KO_PASSWORD :: jstring where "KO_PASSWORD = [48708, 48128, 48264, 54840]"
definition KO_AGAIN :: jstring where "KO_AGAIN = [45796, 49884]"
definition KO_MATCH :: jstring where "KO_MATCH = [51068, 52824, 54616, 51648]"
definition KO_INCORRECT :: jstring where
  "KO_INCORRECT = [51077, 47141, 54616, 49888, 32, 51221, 48372, 44032, 32, 50732, 48148, 47476, 51648]"

subsection \<open>Text tests on response bodies\<close>

definition startsWith :: "jstring \<Rightarrow> jstring \<Rightarrow> bool" where
  "startsWith s p \<longleftrightarrow> take (length p) s = p"

definition includesStr :: "jstring \<Rightarrow> jstring \<Rightarrow> bool" where
  "includesStr s p \<longleftrightarrow> list_ex (\<lambda>i. startsWith (drop i s) p) [0 ..< Suc (length s)]"

text \<open>
  \<open>toLowerCase\<close> on the letters A to Z. No other code unit has a lower-case form that
  contains a character of \<open><!doctype html\<close>, so the tests of \<open>isHtml\<close> see no difference.
\<close>

definition toLowerCase :: "jstring \<Rightarrow> jstring" where
  "toLowerCase s = map (\<lambda>c. if 65 \<le> c \<and> c \<le> 90 then c + 32 else c) s"

definition isHtml :: "jstring \<Rightarrow> bool" where
  "isHtml text =
     (let trimmed = toLowerCase (take 50 (trim text))
      in startsWith trimmed (S ''<!doctype html'') \<or> startsWith trimmed (S ''<html'')
         \<or> includesStr trimmed (S ''<html''))"

text \<open>\<open>html.replace(/\s+/g, ' ')\<close>.\<close>

function collapseSpace :: "jstring \<Rightarrow> jstring" where
  "collapseSpace [] = []"
| "collapseSpace (c # cs) =
     (if isWhiteSpace c then 32 # collapseSpace (dropWhile isWhiteSpace cs)
      else c # collapseSpace cs)"
  by pat_completeness auto
termination
  by (relation "measure length") (auto simp: le_imp_less_Suc length_dropWhile_le)

text \<open>
  A search for \<open>a[^<]{0,40}(b1|b2|...)\<close>: the word \<open>a\<close>, at most forty code units none of
  which is \<open><\<close>, one of the words \<open>bs\<close>. (The \<open>i\<close> flag changes nothing for these words.)
\<close>

definition gapMatch :: "jstring \<Rightarrow> jstring list \<Rightarrow> jstring \<Rightarrow> bool" where
  "gapMatch a bs s \<longleftrightarrow>
     list_ex (\<lambda>i. startsWith (drop i s) a \<and>
                  (let rest = drop (i + length a) s
                   in list_ex (\<lambda>k. k \<le> length rest \<and> list_all (\<lambda>c. c \<noteq> 60) (take k rest) \<and>
                                    list_ex (\<lambda>b. startsWith (drop k rest) b) bs)
                        [0 ..< 41]))
       [0 ..< Suc (length s)]"

definition looksLikeLoginFailure :: "jstring \<Rightarrow> bool" where
  "looksLikeLoginFailure html =
     (let normalized = collapseSpace html
      in gapMatch KO_LOGIN [KO_FAILURE] normalized
         \<or> gapMatch KO_ID [KO_CHECK] normalized
         \<or> gapMatch KO_PASSWORD [KO_AGAIN, KO_CHECK, KO_MATCH] normalized
         \<or> includesStr normalized KO_INCORRECT)"

subsection \<open>The page scanner\<close>

definition extractMetaCsrf :: "env \<Rightarrow> jstring \<Rightarrow> jstring option" where
  "extractMetaCsrf E html = map_option trim (meta_content E html (S ''_csrf''))"

definition extractMetaCsrfAndHeader :: "env \<Rightarrow> jstring \<Rightarrow> jstring option \<times> jstring option" where
  "extractMetaCsrfAndHeader E html =
     (map_option trim (meta_content E html (S ''_csrf'')),
      map_option trim (meta_content E html (S ''_csrf_header'')))"

text \<open>A token that passes \<open>if (token)\<close>: present and not empty.\<close>

definition truthy :: "jstring option \<Rightarrow> jstring option" where
  "truthy t = (case t of Some v \<Rightarrow> if v = [] then None else Some v | None \<Rightarrow> None)"

text \<open>\<open>headerName ?? 'X-CSRF-TOKEN'\<close>.\<close>

definition headerOr :: "jstring option \<Rightarrow> jstring" where
  "headerOr h = (case h of Some v \<Rightarrow> v | None \<Rightarrow> S ''X-CSRF-TOKEN'')"

subsection \<open>Requests\<close>

definition buildHeaders :: "jstring \<Rightarrow> jstring \<Rightarrow> (jstring \<times> jstring) list" where
  "buildHeaders csrf headerName =
     AList.update headerName csrf
       [(S ''Content-Type'', S ''application/x-www-form-urlencoded; charset=UTF-8''),
        (S ''Origin'', BASE),
        (S ''Referer'', REFERER),
        (S ''Accept'', S ''application/json, text/javascript, */*; q=0.01''),
        (S ''X-Requested-With'', S ''XMLHttpRequest'')]"

definition buildBody :: "jstring \<Rightarrow> int \<Rightarrow> int \<Rightarrow> jstring \<Rightarrow> (jstring \<times> jstring) list" where
  "buildBody pernr' yr mo csrf =
     [(S ''coScnCd'', S ''H''),
      (S ''yearPay'', S ''N''),
      (S ''pernr'', pernr'),
      (S ''loginPernr'', pernr'),
      (S ''year'', NumberToString yr),
      (S ''month'', z2 mo),
      (S ''_csrf'', csrf)]"

definition initPageRequest :: request where
  "initPageRequest = \<lparr> verb = GET, url = PAYS_INIT, headers = [(S ''Referer'', LOGIN_PAGE)], form = [] \<rparr>"

definition noticeRequest :: request where
  "noticeRequest =
     \<lparr> verb = POST, url = NOTICE_POP,
       headers = [(S ''X-Requested-With'', S ''XMLHttpRequest''), (S ''Origin'', BASE),
                  (S ''Referer'', LOGIN_PAGE)],
       form = [(S ''typeCd'', S ''00'')] \<rparr>"

definition successRequest :: request where
  "successRequest = \<lparr> verb = GET, url = LOGIN_SUCCESS, headers = [], form = [] \<rparr>"

definition loginPageRequest :: request where
  "loginPageRequest = \<lparr> verb = GET, url = LOGIN_PAGE, headers = [], form = [] \<rparr>"

definition loginRequest :: "env \<Rightarrow> jstring \<Rightarrow> ScrapeParams \<Rightarrow> request" where
  "loginRequest E csrf params =
     \<lparr> verb = POST, url = LOGIN_PROC,
       headers = [(S ''Content-Type'', S ''application/x-www-form-urlencoded''), (S ''Origin'', BASE),
                  (S ''Referer'', LOGIN_PAGE)],
       form = [(S ''user'', base64 E (username params)),
               (S ''pw'', base64 E (password params)),
               (S ''otpType'', S ''FIDO''),
               (S ''otpFlag'', S ''P''),
               (S ''otpPasscode'', []),
               (S ''ABLE_LANGUAGE_SELECTION_PARAM'', S ''ko_KR''),
               (S ''accessType'', S ''login''),
               (S ''osType'', S ''P''),
               (S ''_csrf'', csrf)] \<rparr>"

definition detailRequest :: "ScrapeParams \<Rightarrow> int \<Rightarrow> int \<Rightarrow> jstring \<Rightarrow> jstring \<Rightarrow> request" where
  "detailRequest params yr mo csrf headerName =
     \<lparr> verb = POST, url = ENDPOINT, headers = buildHeaders csrf headerName,
       form = buildBody (pernr params) yr mo csrf \<rparr>"

subsection \<open>Waiting for the mobile approval\<close>

text \<open>One pass of the polling loop ends with a token and its header name, or with the new \<open>lastError\<close>.\<close>

datatype cycle = Token jstring jstring | NoToken jstring

definition approved :: "env \<Rightarrow> jstring \<Rightarrow> jstring \<Rightarrow> jstring \<Rightarrow> world \<Rightarrow> cycle \<times> world" where
  "approved E jobId token html w =
     (Token token (headerOr (snd (extractMetaCsrfAndHeader E html))),
      updateJob jobId (patch \<lparr> p_status := Some S_fetching, p_message := Some MSG_APPROVED \<rparr>) w)"

definition pollText :: "nat \<Rightarrow> nat \<Rightarrow> nat \<Rightarrow> jstring" where
  "pollText i n s =
     S ''poll: init='' @ NumberToString (int i) @ S '' notice='' @ NumberToString (int n)
     @ S '' success='' @ NumberToString (int s)"

text \<open>The \<open>try\<close> block of the loop with its \<open>catch\<close>.\<close>

definition pollOnce :: "env \<Rightarrow> jstring \<Rightarrow> world \<Rightarrow> cycle \<times> world" where
  "pollOnce E jobId w =
     (case send E initPageRequest w of
        (Inl (Error m), w1) \<Rightarrow> (NoToken m, w1)
      | (Inr initResp, w1) \<Rightarrow>
          (case truthy (extractMetaCsrf E (body initResp)) of
             Some initToken \<Rightarrow> approved E jobId initToken (body initResp) w1
           | None \<Rightarrow>
               (case send E noticeRequest w1 of
                  (Inl (Error m), w2) \<Rightarrow> (NoToken m, w2)
                | (Inr noticeResp, w2) \<Rightarrow>
                    (case truthy (extractMetaCsrf E (body noticeResp)) of
                       Some noticeToken \<Rightarrow> approved E jobId noticeToken (body noticeResp) w2
                     | None \<Rightarrow>
                         (case send E successRequest w2 of
                            (Inl (Error m), w3) \<Rightarrow> (NoToken m, w3)
                          | (Inr successResp, w3) \<Rightarrow>
                              (case truthy (extractMetaCsrf E (body successResp)) of
                                 Some successToken \<Rightarrow>
                                   approved E jobId successToken (body successResp) w3
                               | None \<Rightarrow>
                                   (NoToken (pollText (statusCode initResp) (statusCode noticeResp)
                                               (statusCode successResp)), w3)))))))"

lemma clock_updateJob [simp]: "clock (updateJob jobId p w) = clock w"
  by (simp add: updateJob_def Let_def split: option.splits)

lemma clock_send: "send E rq w = (r, w') \<Longrightarrow> clock w \<le> clock w'"
  by (auto simp: send_def Let_def split: http_result.splits)

lemma clock_pollOnce: "pollOnce E jobId w = (c, w') \<Longrightarrow> clock w \<le> clock w'"
  unfolding pollOnce_def approved_def
  by (auto split: prod.splits sum.splits exn.splits option.splits dest!: clock_send)

lemma clock_sleep [simp]: "clock (sleep E ms w) = clock w + ms + int (lag E (ticks w))"
  by (simp add: sleep_def)

text \<open>
  The loop \<open>while (Date.now() < deadline)\<close>. Every pass sleeps for at least 500 ms, so the
  clock reaches the deadline.
\<close>

function waitForFido_loop ::
  "env \<Rightarrow> ScrapeParams \<Rightarrow> jstring \<Rightarrow> int \<Rightarrow> jstring \<Rightarrow> world \<Rightarrow> (exn + jstring \<times> jstring) \<times> world"
where
  "waitForFido_loop E params jobId deadline lastError w =
     (if clock w < deadline then
        (case pollOnce E jobId w of
           (Token token headerName, w1) \<Rightarrow> (Inr (token, headerName), w1)
         | (NoToken lastError', w1) \<Rightarrow>
             waitForFido_loop E params jobId deadline lastError'
               (sleep E (max 500 (pollIntervalSeconds params * 1000)) w1))
      else (Inl (Error (S ''Mobile approval timed out. Last status: '' @ lastError)), w))"
  by pat_completeness auto
termination
  by (relation "measure (\<lambda>(E, params, jobId, deadline, lastError, w). nat (deadline - clock w))")
     (auto dest!: clock_pollOnce [OF sym])

declare waitForFido_loop.simps [simp del]

definition waitForFido :: "env \<Rightarrow> ScrapeParams \<Rightarrow> jstring \<Rightarrow> world \<Rightarrow> (exn + jstring \<times> jstring) \<times> world"
where
  "waitForFido E params jobId w =
     (let deadline = clock w + waitAuthSeconds params * 1000
      in waitForFido_loop E params jobId deadline (S ''no poll yet'') w)"

subsection \<open>Login and token refresh\<close>

definition postLoginProcess :: "env \<Rightarrow> jstring \<Rightarrow> ScrapeParams \<Rightarrow> world \<Rightarrow> (exn + unit) \<times> world" where
  "postLoginProcess E csrf params w =
     (case send E (loginRequest E csrf params) w of
        (Inl e, w1) \<Rightarrow> (Inl e, w1)
      | (Inr resp, w1) \<Rightarrow>
          if looksLikeLoginFailure (body resp) then (Inl (Error MSG_LOGIN_FAILED), w1)
          else (Inr (), w1))"

definition fetchLatestCsrf :: "env \<Rightarrow> jstring \<Rightarrow> world \<Rightarrow> (exn + jstring \<times> jstring) \<times> world" where
  "fetchLatestCsrf E jobId w =
     (case send E initPageRequest w of
        (Inl e, w1) \<Rightarrow> (Inl e, w1)
      | (Inr resp, w1) \<Rightarrow>
          (case extractMetaCsrfAndHeader E (body resp) of
             (token, headerName) \<Rightarrow>
               (case truthy token of
                  None \<Rightarrow> (Inl (Error (S ''Unable to extract _csrf token after approval.'')), w1)
                | Some tok \<Rightarrow>
                    (Inr (tok, headerOr headerName),
                     updateJob jobId (patch \<lparr> p_message := Some MSG_REFRESHED \<rparr>) w1))))"

subsection \<open>The collection loop\<close>

text \<open>\<open>a?.key\<close>.\<close>

definition optChain :: "jsval \<Rightarrow> jstring \<Rightarrow> jsval" where
  "optChain a key = (if a = JUndefined \<or> a = JNull then JUndefined else getProp a key)"

text \<open>
  \<open>payload.result?.payDetails?.payDetails ?? []\<close>: reading \<open>result\<close> of \<open>null\<close> throws, any
  other payload without the path gives the empty list.
\<close>

definition payDetailsOf :: "jsval \<Rightarrow> exn + jsval" where
  "payDetailsOf payload =
     (if payload = JNull \<or> payload = JUndefined
      then Inl (Error (S ''Cannot read properties of null (reading 'result')''))
      else Inr (orElse (optChain (optChain (getProp payload (S ''result'')) (S ''payDetails''))
                          (S ''payDetails''))
                  (JArr [])))"

text \<open>The call of \<open>normalizeRows\<close> on what the payload holds: only an array has \<open>filter\<close>.\<close>

definition normalizeRowsOf :: "int \<Rightarrow> int \<Rightarrow> jsval \<Rightarrow> exn + Txn list" where
  "normalizeRowsOf yr mo rows =
     (case rows of
        JArr xs \<Rightarrow> normalizeRows yr mo xs
      | _ \<Rightarrow> Inl (Error (S ''rows.filter is not a function'')))"

text \<open>
  The \<open>try\<close> block of one period: the POST, on an HTML body one token refresh and one
  retried POST, then parsing and normalizing. It yields the transactions of the period or
  the error that the \<open>catch\<close> of the period receives.
\<close>

definition fetchPeriod ::
  "env \<Rightarrow> jstring \<Rightarrow> ScrapeParams \<Rightarrow> jstring \<Rightarrow> jstring \<Rightarrow> int \<Rightarrow> int \<Rightarrow> world
   \<Rightarrow> (exn + Txn list) \<times> world"
where
  "fetchPeriod E jobId params csrfToken headerName yr mo w =
     (case send E (detailRequest params yr mo csrfToken headerName) w of
        (Inl e, w1) \<Rightarrow> (Inl e, w1)
      | (Inr resp, w1) \<Rightarrow>
          (case (if isHtml (body resp) then
                   (case fetchLatestCsrf E jobId w1 of
                      (Inl e, w2) \<Rightarrow> (Inl e, w2)
                    | (Inr (token, refreshedName), w2) \<Rightarrow>
                        (case send E (detailRequest params yr mo token refreshedName) w2 of
                           (Inl e, w3) \<Rightarrow> (Inl e, w3)
                         | (Inr retryResp, w3) \<Rightarrow>
                             if isHtml (body retryResp) then (Inl (Error MSG_HTML_AGAIN), w3)
                             else (Inr (body retryResp), w3)))
                 else (Inr (body resp), w1)) of
             (Inl e, w') \<Rightarrow> (Inl e, w')
           | (Inr payloadText, w') \<Rightarrow>
               (andThen (json_parse E payloadText) (\<lambda>payload.
                  andThen (payDetailsOf payload) (\<lambda>rows. normalizeRowsOf yr mo rows)),
                w')))"

definition progressText :: "nat \<Rightarrow> nat \<Rightarrow> int \<Rightarrow> int \<Rightarrow> jstring" where
  "progressText processed totalN yr mo =
     NumberToString (int processed) @ S ''/'' @ NumberToString (int totalN) @ MSG_ARROW
     @ NumberToString yr @ S ''-'' @ z2 mo"

text \<open>The body of the inner \<open>for\<close> loop, for one month of one year.\<close>

definition periodStep ::
  "env \<Rightarrow> jstring \<Rightarrow> ScrapeParams \<Rightarrow> jstring \<Rightarrow> jstring \<Rightarrow> nat \<Rightarrow> int \<Rightarrow> int
   \<Rightarrow> Txn list \<times> nat \<times> world \<Rightarrow> Txn list \<times> nat \<times> world"
where
  "periodStep E jobId params csrfToken headerName totalN yr mo acc =
     (case acc of
        (all, processed0, w) \<Rightarrow>
          let processed = processed0 + 1;
              w1 = updateJob jobId
                     (patch \<lparr> p_processedMonths := Some processed, p_totalMonths := Some totalN,
                              p_message := Some (MSG_PROGRESS @ progressText processed totalN yr mo) \<rparr>)
                     w
          in (case fetchPeriod E jobId params csrfToken headerName yr mo w1 of
                (Inr txns, w2) \<Rightarrow> (all @ txns, processed, sleep E 200 w2)
              | (Inl (Error msg), w2) \<Rightarrow>
                  (all, processed,
                   sleep E 200
                     (updateJob jobId
                        (patch \<lparr> p_message :=
                                   Some (MSG_PERIOD_ERROR @ progressText processed totalN yr mo
                                         @ S '': '' @ msg) \<rparr>)
                        w2))))"

fun monthsLoop ::
  "env \<Rightarrow> jstring \<Rightarrow> ScrapeParams \<Rightarrow> jstring \<Rightarrow> jstring \<Rightarrow> nat \<Rightarrow> int \<Rightarrow> int list
   \<Rightarrow> Txn list \<times> nat \<times> world \<Rightarrow> Txn list \<times> nat \<times> world"
where
  "monthsLoop E jobId params csrfToken headerName totalN yr [] acc = acc"
| "monthsLoop E jobId params csrfToken headerName totalN yr (mo # rest) acc =
     monthsLoop E jobId params csrfToken headerName totalN yr rest
       (periodStep E jobId params csrfToken headerName totalN yr mo acc)"

fun yearsLoop ::
  "env \<Rightarrow> jstring \<Rightarrow> ScrapeParams \<Rightarrow> jstring \<Rightarrow> jstring \<Rightarrow> nat \<Rightarrow> int list
   \<Rightarrow> Txn list \<times> nat \<times> world \<Rightarrow> Txn list \<times> nat \<times> world"
where
  "yearsLoop E jobId params csrfToken headerName totalN [] acc = acc"
| "yearsLoop E jobId params csrfToken headerName totalN (yr # rest) acc =
     yearsLoop E jobId params csrfToken headerName totalN rest
       (monthsLoop E jobId params csrfToken headerName totalN yr (months params) acc)"

subsection \<open>Summary\<close>

text \<open>The sum of two numbers, rounded to binary64.\<close>

fun js_add :: "jsnum \<Rightarrow> jsnum \<Rightarrow> jsnum" where
  "js_add (Fin a) (Fin b) = float_round (a + b)"
| "js_add NaN y = NaN"
| "js_add x NaN = NaN"
| "js_add PInf NInf = NaN"
| "js_add NInf PInf = NaN"
| "js_add PInf y = PInf"
| "js_add x PInf = PInf"
| "js_add NInf y = NInf"
| "js_add x NInf = NInf"

definition computeSummary :: "Txn list \<Rightarrow> Summary" where
  "computeSummary txns =
     foldl (\<lambda>acc txn.
              \<lparr> sum_gross = js_add (sum_gross acc) (Fin (of_int (gross txn))),
                sum_deductions = js_add (sum_deductions acc) (Fin (of_int (deductions txn))),
                sum_net = js_add (sum_net acc) (Fin (of_int (net txn))),
                sum_count = sum_count acc + 1 \<rparr>)
       \<lparr> sum_gross = Fin 0, sum_deductions = Fin 0, sum_net = Fin 0, sum_count = 0 \<rparr>
       txns"

subsection \<open>\<open>processJob\<close>\<close>

text \<open>The outer \<open>catch\<close>.\<close>

definition failJob :: "jstring \<Rightarrow> exn \<Rightarrow> world \<Rightarrow> world" where
  "failJob jobId e w =
     (case e of
        Error msg \<Rightarrow>
          updateJob jobId
            (patch \<lparr> p_status := Some S_error, p_message := Some (MSG_JOB_FAILED @ msg),
                     p_error := Some msg \<rparr>)
            w)"

text \<open>The collection loop and the final write, once the approval gave a token.\<close>

definition collect_and_complete ::
  "env \<Rightarrow> jstring \<Rightarrow> ScrapeParams \<Rightarrow> jstring \<Rightarrow> jstring \<Rightarrow> world \<Rightarrow> world"
where
  "collect_and_complete E jobId params csrfToken headerName w =
     (let totalN = length (years params) * length (months params)
      in (case yearsLoop E jobId params csrfToken headerName totalN (years params) ([], 0, w) of
            (all, processed, w') \<Rightarrow>
              let summary' = computeSummary all
              in updateJob jobId
                   (patch \<lparr> p_status := Some S_completed,
                            p_message :=
                              Some (MSG_DONE_1 @ NumberToString (int (sum_count summary'))
                                    @ MSG_DONE_2),
                            p_transactions := Some all,
                            p_summary := Some summary',
                            p_processedMonths := Some totalN,
                            p_totalMonths := Some totalN \<rparr>)
                   w'))"

text \<open>The first write of \<open>processJob\<close>, made before its first suspension.\<close>

definition processJob_begin :: "jstring \<Rightarrow> world \<Rightarrow> world" where
  "processJob_begin jobId w =
     updateJob jobId (patch \<lparr> p_status := Some S_pending, p_message := Some MSG_CONNECTING \<rparr>) w"

definition processJob :: "env \<Rightarrow> jstring \<Rightarrow> ScrapeParams \<Rightarrow> world \<Rightarrow> world" where
  "processJob E jobId params w =
     (let w0 = processJob_begin jobId w
      in (case send E loginPageRequest w0 of
            (Inl e, w1) \<Rightarrow> failJob jobId e w1
          | (Inr loginResp, w1) \<Rightarrow>
              (case truthy (extractMetaCsrf E (body loginResp)) of
                 None \<Rightarrow> failJob jobId (Error MSG_NO_LOGIN_TOKEN) w1
               | Some initialCsrf \<Rightarrow>
                   let w2 = updateJob jobId
                              (patch \<lparr> p_status := Some S_auth_wait,
                                       p_message := Some MSG_AUTH_WAIT \<rparr>)
                              w1
                   in (case postLoginProcess E initialCsrf params w2 of
                         (Inl e, w3) \<Rightarrow> failJob jobId e w3
                       | (Inr u, w3) \<Rightarrow>
                           (case waitForFido E params jobId w3 of
                              (Inl e, w4) \<Rightarrow> failJob jobId e w4
                            | (Inr (csrfToken, headerName), w4) \<Rightarrow>
                                collect_and_complete E jobId params csrfToken headerName w4)))))"

subsection \<open>The registry\<close>

definition toSnapshot :: "JobState option \<Rightarrow> JobSnapshot option" where
  "toSnapshot j =
     (case j of
        None \<Rightarrow> None
      | Some job \<Rightarrow>
          Some \<lparr> snap_id = job_id job, snap_status = status job, snap_message = message job,
                 snap_totalMonths = totalMonths job, snap_processedMonths = processedMonths job,
                 snap_summary = summary job, snap_error = error job,
                 snap_transactions =
                   (if status job = S_completed then Some (transactions job) else None) \<rparr>)"

text \<open>
  \<open>startPayrollJob\<close>, with the identifier that \<open>randomUUID\<close> returned. The job record is put
  into the store and \<open>processJob\<close> is started; the snapshot handed back is taken when
  \<open>processJob\<close> has reached its first suspension. The world returned is the one in which the
  background task has run to its end.
\<close>

definition startPayrollJob :: "env \<Rightarrow> jstring \<Rightarrow> ScrapeParams \<Rightarrow> world \<Rightarrow> JobSnapshot option \<times> world" where
  "startPayrollJob E jobId params w =
     (let totalN = length (years params) * length (months params);
          state = \<lparr> job_id = jobId, status = S_pending, message = MSG_PREPARING,
                    totalMonths = totalN, processedMonths = 0, transactions = [],
                    summary = None, error = None, createdAt = clock w, updatedAt = clock w \<rparr>;
          w1 = w \<lparr> store := AList.update jobId state (store w), hist := hist w @ [state] \<rparr>
      in (toSnapshot (map_of (store (processJob_begin jobId w1)) jobId),
          processJob E jobId params w1))"

definition getPayrollJob :: "jstring \<Rightarrow> world \<Rightarrow> JobSnapshot option" where
  "getPayrollJob jobId w = toSnapshot (map_of (store w) jobId)"

text \<open>
  \<open>cleanupOldJobs\<close>: the loop over the entries of the map, deleting a stale entry by its key.
  The default of \<open>maxAgeMs\<close> is thirty minutes.
\<close>

definition DEFAULT_MAX_AGE_MS :: int where
  "DEFAULT_MAX_AGE_MS = 1000 * 60 * 30"

definition cleanupOldJobs :: "int \<Rightarrow> world \<Rightarrow> world" where
  "cleanupOldJobs maxAgeMs w =
     (let now = clock w
      in w \<lparr> store :=
               fold (\<lambda>(jobId, job) st. if now - updatedAt job > maxAgeMs then AList.delete jobId st
                                        else st)
                 (store w) (store w) \<rparr>)"

section \<open>Invariants of a running job\<close>

text \<open>
  Words for the proofs about the trace of a job. A patch is \<open>quiet\<close> when it leaves the
  counters, the transactions and the summary alone and does not complete the job. A trace
  is \<open>good\<close> when its processed counts never decrease and stay within \<open>k\<close>, its total is \<open>T\<close>
  and no state in it is completed or holds transactions. A job is \<open>running\<close> when it is in
  the store, the store holds the last state of the trace, and the trace from position \<open>n\<close>
  on is good. The trace \<open>grows\<close> in a step that only appends to it, and a step \<open>keeps\<close> the
  job running when in addition it preserves \<open>running\<close>.
\<close>

definition quiet :: "JobPatch \<Rightarrow> bool" where
  "quiet p \<longleftrightarrow>
     p_processedMonths p = None \<and> p_totalMonths p = None \<and> p_transactions p = None
     \<and> p_summary p = None \<and> p_status p \<noteq> Some S_completed"

definition good :: "nat \<Rightarrow> nat \<Rightarrow> JobState list \<Rightarrow> bool" where
  "good T k xs \<longleftrightarrow>
     sorted_wrt (\<lambda>a b. processedMonths a \<le> processedMonths b) xs
     \<and> (\<forall>x \<in> set xs. processedMonths x \<le> k \<and> totalMonths x = T \<and> transactions x = []
                       \<and> summary x = None \<and> status x \<noteq> S_completed)"

definition running :: "jstring \<Rightarrow> nat \<Rightarrow> nat \<Rightarrow> nat \<Rightarrow> world \<Rightarrow> bool" where
  "running jobId T k n w \<longleftrightarrow>
     (\<exists>j. map_of (store w) jobId = Some j \<and> n < length (hist w) \<and> last (hist w) = j
          \<and> processedMonths j = k \<and> good T k (drop n (hist w)))"

definition grows :: "world \<Rightarrow> world \<Rightarrow> bool" where
  "grows w w' \<longleftrightarrow> (\<exists>zs. hist w' = hist w @ zs)"

definition keeps :: "jstring \<Rightarrow> world \<Rightarrow> world \<Rightarrow> bool" where
  "keeps jobId w w' \<longleftrightarrow>
     grows w w' \<and> (\<forall>T k n. running jobId T k n w \<longrightarrow> running jobId T k n w')"

text \<open>
  The shape of the whole trace of a job, from its creation to its end: counts that never
  decrease and never exceed the total, no transactions and no summary before the last
  state, and a last state that is completed, with the summary of its transactions and all
  periods counted, or failed, without transactions.
\<close>

definition trace_ok :: "JobState list \<Rightarrow> bool" where
  "trace_ok xs \<longleftrightarrow>
     xs \<noteq> []
     \<and> sorted_wrt (\<lambda>a b. processedMonths a \<le> processedMonths b) xs
     \<and> (\<forall>x \<in> set xs. processedMonths x \<le> totalMonths x)
     \<and> (\<forall>x \<in> set (butlast xs). status x \<noteq> S_completed \<and> transactions x = [] \<and> summary x = None)
     \<and> (status (last xs) = S_completed
          \<and> summary (last xs) = Some (computeSummary (transactions (last xs)))
          \<and> processedMonths (last xs) = totalMonths (last xs)
        \<or> status (last xs) = S_error \<and> transactions (last xs) = [] \<and> summary (last xs) = None)"

subsection \<open>Words for the approval timeout\<close>

text \<open>
  \<open>noToken E n\<close> says that no response from the \<open>n\<close>-th request on carries a token.
  \<open>lastPass E n rs le\<close> reads the text \<open>le\<close> off the end of the list \<open>rs\<close> of requests sent, of
  which at least \<open>n\<close> came before the polling loop: when the last request failed, it is a
  probe and \<open>le\<close> is its error text; otherwise the last three requests are the three probes
  of one pass and \<open>le\<close> is the text made of their three status codes.
\<close>

definition noToken :: "env \<Rightarrow> nat \<Rightarrow> bool" where
  "noToken E n \<longleftrightarrow> (\<forall>i \<ge> n. \<forall>c b. http E i = Response c b \<longrightarrow> truthy (extractMetaCsrf E b) = None)"

definition lastPass :: "env \<Rightarrow> nat \<Rightarrow> request list \<Rightarrow> jstring \<Rightarrow> bool" where
  "lastPass E n rs le \<longleftrightarrow>
     (case http E (length rs - 1) of
        Failure m \<Rightarrow>
          le = m \<and> n < length rs \<and> last rs \<in> {initPageRequest, noticeRequest, successRequest}
      | Response c z \<Rightarrow>
          n + 3 \<le> length rs
          \<and> drop (length rs - 3) rs = [initPageRequest, noticeRequest, successRequest]
          \<and> (\<exists>a x b y. http E (length rs - 3) = Response a x
                \<and> http E (length rs - 2) = Response b y \<and> le = pollText a b c))"

subsection \<open>Words for the collection loop\<close>

text \<open>
  A step is \<open>steady\<close> for a job when it neither adds nor removes the job and leaves the
  status, the error and the transactions of its record as they were.
\<close>

definition steady :: "jstring \<Rightarrow> world \<Rightarrow> world \<Rightarrow> bool" where
  "steady jobId w w' \<longleftrightarrow>
     (case map_of (store w) jobId of
        None \<Rightarrow> map_of (store w') jobId = None
      | Some j \<Rightarrow> (\<exists>j'. map_of (store w') jobId = Some j' \<and> status j' = status j
                       \<and> error j' = error j \<and> transactions j' = transactions j))"

section \<open>Sample inputs\<close>

definition sampleJob :: "jstring \<Rightarrow> int \<Rightarrow> JobState" where
  "sampleJob name t =
     \<lparr> job_id = name, status = S_fetching, message = [], totalMonths = 12, processedMonths = 3,
       transactions = [], summary = None, error = None, createdAt = t, updatedAt = t \<rparr>"

text \<open>A registry read at time 2000000 ms: one job written 31 minutes before, one 29 minutes before.\<close>

definition W_two_jobs :: world where
  "W_two_jobs =
     \<lparr> clock = 2000000, ticks = 0, sent = [],
       store = [(S ''old'', sampleJob (S ''old'') 140000), (S ''new'', sampleJob (S ''new'') 260000)],
       hist = [] \<rparr>"

text \<open>A raw record with a grouped gross amount and a negative deduction, and its transaction.\<close>

definition row_sample :: jsval where
  "row_sample = JObj [(S ''bet01'', JStr (S ''1,234'')), (S ''bet07'', JStr (S ''-500''))]"

definition txn_sample :: Txn where
  "txn_sample =
     \<lparr> year = 2024, month = 3, date = S ''2024-03-01'', category = S ''UNKNOWN'', group = [],
       gross = 1234, deductions = - 500, net = 0, currency = S ''KRW'', seqnr = [], fpbeg = [],
       fpend = [] \<rparr>"

text \<open>
  A portal for sample runs. The login page and the payslip page carry a token; the login is
  accepted; the first approval probe finds the token. The first payroll request comes
  back as an HTML page, the refreshed request as JSON with one record. Every later
  request comes back as an HTML page without a token.
\<close>

definition payload_sample :: jsval where
  "payload_sample =
     JObj [(S ''result'',
            JObj [(S ''payDetails'',
                   JObj [(S ''payDetails'', JArr [JObj [(S ''bet01'', JStr (S ''1,000''))]])])])]"

definition E_sample :: env where
  "E_sample =
     \<lparr> http = (\<lambda>n. if n = 0 then Response 200 (S ''L'')
                   else if n = 1 then Response 200 (S ''ok'')
                   else if n = 2 \<or> n = 4 then Response 200 (S ''I'')
                   else if n = 5 then Response 200 (S ''J'')
                   else Response 200 (S ''<html>'')),
       lag = (\<lambda>n. 10),
       json_parse = (\<lambda>s. if s = S ''J'' then Inr payload_sample
                          else Inl (Error (S ''Unexpected token''))),
       meta_content = (\<lambda>html name. if (html = S ''L'' \<or> html = S ''I'') \<and> name = S ''_csrf''
                                    then Some (S '' tok '') else None),
       base64 = (\<lambda>s. s) \<rparr>"

definition P_sample :: ScrapeParams where
  "P_sample =
     \<lparr> username = S ''u'', password = S ''p'', pernr = S ''u'', years = [2024], months = [1, 2],
       waitAuthSeconds = 60, pollIntervalSeconds = 2 \<rparr>"

definition W_sample :: world where
  "W_sample = \<lparr> clock = 1000, ticks = 0, sent = [], store = [], hist = [] \<rparr>"

text \<open>
  A server on which the approval never arrives: the login page carries a token, the login
  is accepted, and every later request is answered with a page without a token. The second
  and third probe of the second pass are answered with other status codes than those of
  the first pass. With a wait of two seconds and a poll every second the loop makes two
  passes.
\<close>

definition E_slow :: env where
  "E_slow =
     E_sample \<lparr> http := (\<lambda>n. if n = 0 then Response 200 (S ''L'')
                             else if n = 1 then Response 200 (S ''ok'')
                             else if n = 6 then Response 204 (S ''<html>'')
                             else if n = 7 then Response 203 (S ''<html>'')
                             else Response 200 (S ''<html>'')) \<rparr>"

definition P_short :: ScrapeParams where
  "P_short = P_sample \<lparr> waitAuthSeconds := 2, pollIntervalSeconds := 1 \<rparr>"



section \<open>The registry: eviction\<close>

lemma map_of_fold_delete:
  "map_of (fold (\<lambda>(jobId, job) st. if P job then AList.delete jobId st else st) xs st0) k =
     (if \<exists>j. (k, j) \<in> set xs \<and> P j then None else map_of st0 k)"
proof (induction xs arbitrary: st0)
  case Nil
  then show ?case by simp
next
  case (Cons x xs)
  obtain k' j' where x: "x = (k', j')" by (cases x)
  show ?case
    unfolding x using Cons.IH by (auto simp: delete_conv')
qed

lemma distinct_fold_delete:
  "distinct (map fst st0) \<Longrightarrow>
   distinct (map fst (fold (\<lambda>(jobId, job) st. if P job then AList.delete jobId st else st) xs st0))"
  by (induction xs arbitrary: st0) (auto simp: distinct_delete split: prod.splits)

lemma map_of_cleanupOldJobs:
  assumes "distinct (map fst (store w))"
  shows "map_of (store (cleanupOldJobs m w)) k =
           (case map_of (store w) k of
              None \<Rightarrow> None
            | Some job \<Rightarrow> if clock w - updatedAt job > m then None else Some job)"
  using assms
  by (auto simp: cleanupOldJobs_def Let_def map_of_fold_delete split: option.splits
           dest: map_of_SomeD eq_key_imp_eq_value)

text \<open>
  Claim C9. In a registry that holds each job identifier once, \<open>cleanupOldJobs maxAgeMs\<close>
  removes exactly the jobs whose last update lies more than \<open>maxAgeMs\<close> before the current
  time, and keeps every other job as it was. Under the default threshold of thirty minutes a
  job last updated 31 minutes ago is removed and one last updated 29 minutes ago is kept.
\<close>

theorem cleanupOldJobs_exact:
  assumes "distinct (map fst (store w))"
  shows "map_of (store (cleanupOldJobs maxAgeMs w)) jobId =
           (case map_of (store w) jobId of
              None \<Rightarrow> None
            | Some job \<Rightarrow> if clock w - updatedAt job > maxAgeMs then None else Some job)
         \<and> distinct (map fst (store (cleanupOldJobs maxAgeMs w)))
         \<and> (map_of (store w) a = Some ja \<and> updatedAt ja = clock w - 31 * 60 * 1000
              \<longrightarrow> map_of (store (cleanupOldJobs DEFAULT_MAX_AGE_MS w)) a = None)
         \<and> (map_of (store w) b = Some jb \<and> updatedAt jb = clock w - 29 * 60 * 1000
              \<longrightarrow> map_of (store (cleanupOldJobs DEFAULT_MAX_AGE_MS w)) b = Some jb)"
proof -
  have "distinct (map fst (store (cleanupOldJobs maxAgeMs w)))"
    using assms by (simp add: cleanupOldJobs_def Let_def distinct_fold_delete)
  then show ?thesis
    using assms by (auto simp: map_of_cleanupOldJobs DEFAULT_MAX_AGE_MS_def)
qed

theorem cleanupOldJobs_exact_witness:
  "distinct (map fst (store W_two_jobs))
   \<and> map_of (store W_two_jobs) (S ''old'') = Some (sampleJob (S ''old'') 140000)
   \<and> updatedAt (sampleJob (S ''old'') 140000) = clock W_two_jobs - 31 * 60 * 1000
   \<and> map_of (store (cleanupOldJobs DEFAULT_MAX_AGE_MS W_two_jobs)) (S ''old'') = None
   \<and> map_of (store W_two_jobs) (S ''new'') = Some (sampleJob (S ''new'') 260000)
   \<and> updatedAt (sampleJob (S ''new'') 260000) = clock W_two_jobs - 29 * 60 * 1000
   \<and> map_of (store (cleanupOldJobs DEFAULT_MAX_AGE_MS W_two_jobs)) (S ''new'')
       = Some (sampleJob (S ''new'') 260000)"
proof -
  have d: "distinct (map fst (store W_two_jobs))"
    by (simp add: W_two_jobs_def S_def)
  have o: "map_of (store W_two_jobs) (S ''old'') = Some (sampleJob (S ''old'') 140000)
           \<and> updatedAt (sampleJob (S ''old'') 140000) = clock W_two_jobs - 31 * 60 * 1000"
    by (simp add: W_two_jobs_def S_def sampleJob_def)
  have n: "map_of (store W_two_jobs) (S ''new'') = Some (sampleJob (S ''new'') 260000)
           \<and> updatedAt (sampleJob (S ''new'') 260000) = clock W_two_jobs - 29 * 60 * 1000"
    by (simp add: W_two_jobs_def S_def sampleJob_def)
  show ?thesis
    using d o n
      cleanupOldJobs_exact [OF d, of DEFAULT_MAX_AGE_MS "S ''old''" "S ''old''"
        "sampleJob (S ''old'') 140000" "S ''new''" "sampleJob (S ''new'') 260000"]
    by blast
qed

section \<open>Binary64 rounding\<close>

lemma pow2_pos [simp]: "0 < pow2 e"
  by (simp add: pow2_def)

lemma pow2_add: "pow2 (a + b) = pow2 a * pow2 b"
  by (simp add: pow2_def power_int_add)

lemma pow2_nat: "0 \<le> e \<Longrightarrow> pow2 e = 2 ^ nat e"
  by (simp add: pow2_def power_int_nonneg_exp)

lemma pow2_less_iff: "pow2 a < pow2 b \<longleftrightarrow> a < b"
proof
  assume "pow2 a < pow2 b"
  show "a < b"
  proof (rule ccontr)
    assume "\<not> a < b"
    then have "b \<le> a" by simp
    then have "pow2 b \<le> pow2 a"
      unfolding pow2_def by (rule power_int_increasing) simp
    with \<open>pow2 a < pow2 b\<close> show False by simp
  qed
next
  assume "a < b"
  then show "pow2 a < pow2 b"
    unfolding pow2_def by (rule power_int_strict_increasing) simp
qed

lemma pow2_le_iff: "pow2 a \<le> pow2 b \<longleftrightarrow> a \<le> b"
  using pow2_less_iff [of b a] by (simp only: not_less [symmetric])

lemma bitlen_rat_bounds:
  assumes "0 < (x::int)"
  shows "pow2 (bitlen x - 1) \<le> of_int x \<and> of_int x < pow2 (bitlen x)"
proof -
  from assms have b1: "1 \<le> bitlen x"
    by (simp add: bitlen_ge_iff_power)
  have "(2::int) ^ nat (bitlen x - 1) \<le> x \<and> x < 2 ^ nat (bitlen x)"
    using bitlen_bounds [OF assms] .
  then have "(of_int ((2::int) ^ nat (bitlen x - 1)) :: rat) \<le> of_int x
      \<and> (of_int x :: rat) < of_int ((2::int) ^ nat (bitlen x))"
    by (simp only: of_int_le_iff of_int_less_iff)
  then show ?thesis
    using b1 by (simp add: pow2_nat)
qed

lemma ilog2_bounds:
  assumes "0 < a"
  shows "pow2 (ilog2 a) \<le> a \<and> a < pow2 (ilog2 a + 1)"
proof -
  obtain p q where pq: "quotient_of a = (p, q)"
    by (cases "quotient_of a")
  have q: "0 < q" using quotient_of_denom_pos [OF pq] .
  have a: "a = of_int p / of_int q" using quotient_of_div [OF pq] .
  have p: "0 < p"
    using assms q unfolding a by (simp add: zero_less_divide_iff)
  define d where "d = bitlen p - bitlen q"
  have qr: "(0::rat) < of_int q" using q by simp
  from bitlen_rat_bounds [OF p] bitlen_rat_bounds [OF q]
  have P1: "pow2 (bitlen p - 1) \<le> of_int p" and P2: "of_int p < pow2 (bitlen p)"
    and Q1: "pow2 (bitlen q - 1) \<le> of_int q" and Q2: "of_int q < pow2 (bitlen q)"
    by simp_all
  have lower: "pow2 (d - 1) \<le> a"
  proof -
    have "pow2 (d - 1) * of_int q \<le> pow2 (d - 1) * pow2 (bitlen q)"
      using Q2 by (simp add: less_imp_le)
    also have "\<dots> = pow2 (bitlen p - 1)"
      by (simp add: pow2_add [symmetric] d_def)
    also have "\<dots> \<le> of_int p" by (rule P1)
    finally show ?thesis
      unfolding a using qr by (simp add: pos_le_divide_eq)
  qed
  have upper: "a < pow2 (d + 1)"
  proof -
    have "of_int p < pow2 (bitlen p)" by (rule P2)
    also have "\<dots> = pow2 (d + 1) * pow2 (bitlen q - 1)"
      by (simp add: pow2_add [symmetric] d_def)
    also have "\<dots> \<le> pow2 (d + 1) * of_int q"
      using Q1 by simp
    finally show ?thesis
      unfolding a using qr by (simp add: pos_divide_less_eq)
  qed
  show ?thesis
  proof (cases "pow2 d \<le> a")
    case True
    then have "ilog2 a = d" by (simp add: ilog2_def pq d_def)
    with True upper show ?thesis by simp
  next
    case False
    then have "ilog2 a = d - 1" by (simp add: ilog2_def pq d_def)
    with False lower show ?thesis by simp
  qed
qed

lemma round_half_even_of_int [simp]: "round_half_even (of_int k) = k"
  by (simp add: round_half_even_def Let_def)

lemma float_round_int:
  assumes "\<bar>n\<bar> \<le> 2 ^ 53"
  shows "float_round (of_int n) = Fin (of_int n)"
proof (cases "n = 0")
  case True
  then show ?thesis by (simp add: float_round_def)
next
  case False
  define a :: rat where "a = of_int \<bar>n\<bar>"
  have abs_a: "\<bar>of_int n :: rat\<bar> = a" by (simp add: a_def)
  have "1 \<le> \<bar>n\<bar>" using False by simp
  then have "(of_int 1 :: rat) \<le> of_int \<bar>n\<bar>" by (simp only: of_int_le_iff)
  then have a1: "1 \<le> a" by (simp add: a_def)
  have "(of_int \<bar>n\<bar> :: rat) \<le> of_int (2 ^ 53)" using assms by (simp only: of_int_le_iff)
  then have a53: "a \<le> pow2 53" by (simp add: a_def pow2_def)
  have apos: "0 < a" using a1 by simp
  define e where "e = ilog2 a"
  from ilog2_bounds [OF apos] have lo: "pow2 e \<le> a" and hi: "a < pow2 (e + 1)"
    by (simp_all add: e_def)
  have "pow2 0 \<le> a" using a1 by (simp add: pow2_def)
  with hi have "pow2 0 < pow2 (e + 1)" by simp
  then have e0: "0 \<le> e" by (simp add: pow2_less_iff)
  have "pow2 e \<le> pow2 53"
    using lo a53 by simp
  then have e53: "e \<le> 53" by (simp add: pow2_le_iff)
  have emax: "max e (- 1022) = e" using e0 by simp
  obtain k :: int where k: "a / pow2 (e - 52) = of_int k"
  proof (cases "e \<le> 52")
    case True
    have "pow2 (e - 52) * pow2 (52 - e) = pow2 ((e - 52) + (52 - e))"
      by (simp only: pow2_add)
    then have h: "pow2 (e - 52) * pow2 (52 - e) = 1"
      by (simp add: pow2_def)
    have nz: "pow2 (e - 52) \<noteq> 0"
      by (simp add: pow2_def)
    have "a * pow2 (52 - e) = a * pow2 (52 - e) * pow2 (e - 52) / pow2 (e - 52)"
      using nz by simp
    also have "\<dots> = a * (pow2 (e - 52) * pow2 (52 - e)) / pow2 (e - 52)"
      by (simp add: mult_ac)
    also have "\<dots> = a / pow2 (e - 52)"
      by (simp only: h mult_1_right)
    finally have "a / pow2 (e - 52) = a * pow2 (52 - e)" by simp
    also have "\<dots> = of_int (\<bar>n\<bar> * 2 ^ nat (52 - e))"
      using True by (simp add: pow2_nat a_def)
    finally show ?thesis by (rule that)
  next
    case False
    with e53 have e: "e = 53" by simp
    have "a = pow2 53" using lo a53 unfolding e by simp
    then have "a / pow2 (e - 52) = of_int (2 ^ 52)"
      unfolding e by (simp add: pow2_def)
    then show ?thesis by (rule that)
  qed
  have "of_int (round_half_even (a / pow2 (e - 52))) * pow2 (e - 52)
          = a / pow2 (e - 52) * pow2 (e - 52)"
    by (simp add: k)
  also have "\<dots> = a"
    by (simp add: pow2_def)
  finally have r: "of_int (round_half_even (a / pow2 (e - 52))) * pow2 (e - 52) = a" .
  have "pow2 53 < pow2 1024" by (simp add: pow2_less_iff)
  with a53 have small: "\<not> pow2 1024 \<le> a" by simp
  have n0: "(of_int n :: rat) \<noteq> 0" using False by simp
  have sgn: "(if 0 < (of_int n :: rat) then a else - a) = of_int n"
    by (simp add: a_def)
  show ?thesis
    unfolding float_round_def Let_def abs_a e_def [symmetric] emax r
    using n0 small sgn by simp
qed

lemma round_half_even_nonneg: "0 \<le> x \<Longrightarrow> 0 \<le> round_half_even x"
  by (auto simp: round_half_even_def Let_def)

lemma float_round_nonneg:
  assumes "0 \<le> x" and "float_round x = Fin r"
  shows "0 \<le> r"
proof (cases "x = 0")
  case True
  with assms show ?thesis by (simp add: float_round_def)
next
  case False
  with assms have x: "0 < x" by simp
  define u where "u = pow2 (max (ilog2 x) (- 1022) - 52)"
  have u: "0 < u" by (simp add: u_def)
  have "0 \<le> round_half_even (x / u)"
    using u x by (intro round_half_even_nonneg) simp
  then have "0 \<le> of_int (round_half_even (x / u)) * u"
    using u by simp
  with assms(2) x show ?thesis
    by (auto simp: float_round_def Let_def u_def split: if_splits)
qed

lemma float_round_not_NInf: "0 \<le> x \<Longrightarrow> float_round x \<noteq> NInf"
  by (auto simp: float_round_def Let_def)

lemma float_round_not_NaN [simp]: "float_round x \<noteq> NaN"
  by (auto simp: float_round_def Let_def)

lemma Math_round_nonneg: "0 \<le> q \<Longrightarrow> 0 \<le> Math_round q"
  by (simp add: Math_round_def)

lemma Math_round_of_int [simp]: "Math_round (of_int n) = n"
  by (simp add: Math_round_def) linarith

lemma Math_round_nearest:
  "\<bar>of_int (Math_round q) - q\<bar> \<le> 1 / 2 \<and> of_int (Math_round q) - q \<noteq> - 1 / 2"
  unfolding Math_round_def by linarith

section \<open>Parsing money\<close>

lemma isDigit_not_space: "isDigit c \<Longrightarrow> \<not> isWhiteSpace c"
  by (auto simp: isDigit_def isWhiteSpace_def)

lemma trim_id:
  assumes "s \<noteq> []" and "\<not> isWhiteSpace (hd s)" and "\<not> isWhiteSpace (last s)"
  shows "trim s = s"
proof -
  have 1: "dropWhile isWhiteSpace s = s"
    using assms by (simp add: dropWhile_eq_self_iff)
  have 2: "dropWhile isWhiteSpace (rev s) = rev s"
    using assms by (simp add: dropWhile_eq_self_iff hd_rev)
  show ?thesis by (simp add: trim_def 1 2)
qed

lemma trim_Nil [simp]: "trim [] = []"
  by (simp add: trim_def)

lemma set_trim: "set (trim s) \<subseteq> set s"
proof -
  have "set (dropWhile isWhiteSpace (rev (dropWhile isWhiteSpace s))) \<subseteq> set (rev (dropWhile isWhiteSpace s))"
    by (rule set_dropWhileD [THEN subsetI])
  also have "\<dots> \<subseteq> set s"
    using set_dropWhileD [of _ isWhiteSpace s] by auto
  finally show ?thesis by (simp add: trim_def)
qed

lemma trim_digits:
  assumes "list_all isDigit ds"
  shows "trim ds = ds"
proof (cases "ds = []")
  case True
  then show ?thesis by simp
next
  case False
  with assms have "isDigit (hd ds)" and "isDigit (last ds)"
    by (auto simp: list_all_iff)
  then show ?thesis
    using False by (intro trim_id) (auto dest: isDigit_not_space)
qed

lemma digitsValue_foldl_nonneg:
  "list_all isDigit ds \<Longrightarrow> 0 \<le> acc \<Longrightarrow> 0 \<le> foldl (\<lambda>acc c. acc * 10 + (int c - 48)) acc ds"
  by (induction ds arbitrary: acc) (auto simp: isDigit_def)

lemma digitsValue_nonneg: "list_all isDigit ds \<Longrightarrow> 0 \<le> digitsValue ds"
  by (simp add: digitsValue_def digitsValue_foldl_nonneg)

lemma NonDecimal_digits: "list_all isDigit ds \<Longrightarrow> NonDecimalIntegerLiteral ds = None"
  by (auto simp: NonDecimalIntegerLiteral_def isDigit_def split: list.splits)

lemma StrUnsigned_digits:
  assumes "list_all isDigit ds" and "ds \<noteq> []"
  shows "StrUnsignedDecimalLiteral ds = Some (of_int (digitsValue ds))"
proof -
  have t: "takeWhile isDigit ds = ds" and d: "dropWhile isDigit ds = []"
    using assms by (simp_all add: list_all_iff)
  show ?thesis
    using assms(2) by (simp add: StrUnsignedDecimalLiteral_def Let_def t d)
qed

lemma S_Infinity: "S ''Infinity'' = [73, 110, 102, 105, 110, 105, 116, 121]"
  by (simp add: S_def)

lemma StringToNumber_digits:
  assumes "list_all isDigit ds" and "ds \<noteq> []"
  shows "StringToNumber ds = float_round (of_int (digitsValue ds))"
proof -
  obtain c r where ds: "ds = c # r" using assms(2) by (cases ds) auto
  have c: "isDigit c" using assms(1) by (simp add: ds)
  then have c1: "c \<noteq> 43" "c \<noteq> 45" "c \<noteq> 73" by (auto simp: isDigit_def)
  have inf: "ds \<noteq> S ''Infinity''" using c1 by (simp add: ds S_Infinity)
  have dec: "StrDecimalLiteral False ds = float_round (of_int (digitsValue ds))"
    using inf by (simp add: StrDecimalLiteral_def StrUnsigned_digits [OF assms])
  have sel: "(case ds of [] \<Rightarrow> NaN
              | c # r \<Rightarrow> if c = 43 then StrDecimalLiteral False r
                        else if c = 45 then StrDecimalLiteral True r
                        else StrDecimalLiteral False ds) = StrDecimalLiteral False ds"
    using c1 by (simp add: ds)
  show ?thesis
    using assms(2)
    by (simp add: StringToNumber_def Let_def trim_digits [OF assms(1)]
        NonDecimal_digits [OF assms(1)] sel dec)
qed

lemma parseIntMoney_grouped:
  assumes "\<forall>c \<in> set s. isDigit c \<or> c = 44" and "\<exists>c \<in> set s. isDigit c"
    and "digitsValue (filter (\<lambda>c. c \<noteq> 44) s) \<le> 2 ^ 53"
  shows "parseIntMoney (JStr s) = Inr (digitsValue (filter (\<lambda>c. c \<noteq> 44) s))"
proof -
  define ds where "ds = filter (\<lambda>c. c \<noteq> 44) s"
  have all: "list_all isDigit ds"
    using assms(1) by (auto simp: ds_def list_all_iff)
  obtain c0 where "c0 \<in> set s" and "isDigit c0"
    using assms(2) by blast
  then have "c0 \<in> set ds"
    by (auto simp: ds_def isDigit_def)
  then have ne: "ds \<noteq> []" by auto
  have "\<bar>digitsValue ds\<bar> \<le> 2 ^ 53"
    using assms(3) digitsValue_nonneg [OF all] by (simp add: ds_def)
  then have "float_round (of_int (digitsValue ds)) = Fin (of_int (digitsValue ds))"
    by (rule float_round_int)
  then show ?thesis
    using ne
    by (simp add: parseIntMoney_def Let_def ds_def [symmetric] trim_digits [OF all]
        StringToNumber_digits [OF all ne])
qed

lemma ilog2_eqI:
  assumes "0 < a" and "pow2 k \<le> a" and "a < pow2 (k + 1)"
  shows "ilog2 a = k"
proof -
  from ilog2_bounds [OF assms(1)]
  have lo: "pow2 (ilog2 a) \<le> a" and hi: "a < pow2 (ilog2 a + 1)" by simp_all
  from lo assms(3) have "pow2 (ilog2 a) < pow2 (k + 1)" by simp
  then have 1: "ilog2 a < k + 1" by (simp add: pow2_less_iff)
  from assms(2) hi have "pow2 k < pow2 (ilog2 a + 1)" by simp
  then have 2: "k < ilog2 a + 1" by (simp add: pow2_less_iff)
  from 1 2 show ?thesis by simp
qed

lemma float_round_pos:
  assumes "0 < x" and "pow2 k \<le> x" and "x < pow2 (k + 1)"
  shows "float_round x =
           (let u = pow2 (max k (- 1022) - 52); r = of_int (round_half_even (x / u)) * u
            in if pow2 1024 \<le> r then PInf else Fin r)"
  using assms(1) by (simp add: float_round_def Let_def ilog2_eqI [OF assms])

lemma round_half_even_eqI:
  assumes "of_int f \<le> x" and "x < of_int f + 1"
  shows "round_half_even x =
           (if x - of_int f < 1 / 2 then f else if 1 / 2 < x - of_int f then f + 1
            else if even f then f else f + 1)"
proof -
  have "\<lfloor>x\<rfloor> = f" using assms by (intro floor_unique) simp_all
  then show ?thesis by (simp add: round_half_even_def Let_def)
qed

lemma float_round_2_53_plus_1: "float_round 9007199254740993 = Fin 9007199254740992"
proof -
  have "round_half_even (9007199254740993 / 2) = 4503599627370496"
    by (subst round_half_even_eqI [of 4503599627370496]) simp_all
  then show ?thesis
    using float_round_pos [of 9007199254740993 53]
    by (simp add: pow2_def Let_def)
qed

lemma Math_round_numeral [simp]:
  "Math_round (numeral k) = numeral k" "Math_round (- numeral k) = - numeral k"
  "Math_round 0 = 0" "Math_round 1 = 1"
  using Math_round_of_int [of "numeral k"] Math_round_of_int [of "- numeral k"]
    Math_round_of_int [of 0] Math_round_of_int [of 1]
  by simp_all

lemma isDigit_numeric: "isDigit c \<Longrightarrow> numericChar c"
  by (simp add: numericChar_def isHexDigit_def)

lemma radix_nonneg:
  "list_all isHexDigit ds \<Longrightarrow> 0 \<le> b \<Longrightarrow> 0 \<le> acc \<Longrightarrow>
     0 \<le> foldl (\<lambda>acc c. acc * b + hexDigitValue c) acc ds"
proof (induction ds arbitrary: acc)
  case Nil
  then show ?case by simp
next
  case (Cons c ds)
  from Cons.prems have "isHexDigit c" by simp
  then have "0 \<le> hexDigitValue c"
    by (auto simp: isHexDigit_def hexDigitValue_def isDigit_def)
  with Cons.prems have "0 \<le> acc * b + hexDigitValue c" by simp
  with Cons show ?case by simp
qed

lemma oct_hex: "list_all (\<lambda>c. 48 \<le> c \<and> c \<le> 55) ds \<Longrightarrow> list_all isHexDigit ds"
  by (induction ds) (simp_all add: isHexDigit_def isDigit_def)

lemma bin_hex: "list_all (\<lambda>c. c = 48 \<or> c = 49) ds \<Longrightarrow> list_all isHexDigit ds"
  by (induction ds) (auto simp: isHexDigit_def isDigit_def)

lemma isHexDigit_numeric: "isHexDigit c \<Longrightarrow> numericChar c"
  by (simp add: numericChar_def)

lemma NonDecimal_numeric:
  assumes "NonDecimalIntegerLiteral s = Some n"
  shows "(\<forall>c \<in> set s. numericChar c) \<and> 0 \<le> n"
proof -
  obtain z p ds where s: "s = z # p # ds"
    using assms by (cases s; cases "tl s") (simp_all add: NonDecimalIntegerLiteral_def)
  have z: "z = 48"
    using assms unfolding s NonDecimalIntegerLiteral_def by (simp split: if_splits)
  have "(p = 120 \<or> p = 88 \<or> p = 111 \<or> p = 79 \<or> p = 98 \<or> p = 66)
        \<and> list_all isHexDigit ds
        \<and> (n = radixValue 16 ds \<or> n = radixValue 8 ds \<or> n = radixValue 2 ds)"
  proof (cases "(p = 120 \<or> p = 88) \<and> list_all isHexDigit ds")
    case True
    with assms z show ?thesis
      unfolding s NonDecimalIntegerLiteral_def by (auto split: if_splits)
  next
    case nothex: False
    show ?thesis
    proof (cases "(p = 111 \<or> p = 79) \<and> list_all (\<lambda>c. 48 \<le> c \<and> c \<le> 55) ds")
      case True
      then have "list_all isHexDigit ds" by (simp add: oct_hex)
      with assms z nothex True show ?thesis
        unfolding s NonDecimalIntegerLiteral_def by (auto split: if_splits)
    next
      case notoct: False
      show ?thesis
      proof (cases "(p = 98 \<or> p = 66) \<and> list_all (\<lambda>c. c = 48 \<or> c = 49) ds")
        case True
        then have "list_all isHexDigit ds" by (simp add: bin_hex)
        with assms z nothex notoct True show ?thesis
          unfolding s NonDecimalIntegerLiteral_def by (auto split: if_splits)
      next
        case False
        with assms z nothex notoct show ?thesis
          unfolding s NonDecimalIntegerLiteral_def by (auto split: if_splits)
      qed
    qed
  qed
  then have p: "numericChar p" and hex: "list_all isHexDigit ds"
    and n: "n = radixValue 16 ds \<or> n = radixValue 8 ds \<or> n = radixValue 2 ds"
    by (auto simp: numericChar_def isHexDigit_def)
  have "0 \<le> n"
    using n radix_nonneg [OF hex, of 16 0] radix_nonneg [OF hex, of 8 0] radix_nonneg [OF hex, of 2 0]
    by (auto simp: radixValue_def)
  moreover have "numericChar z"
    unfolding z by (simp add: numericChar_def isHexDigit_def isDigit_def)
  moreover have "\<forall>c \<in> set ds. numericChar c"
    using hex by (auto simp: list_all_iff intro: isHexDigit_numeric)
  ultimately show ?thesis using p unfolding s by simp
qed

lemma ExponentPart_numeric:
  assumes "ExponentPart t = Some e"
  shows "\<forall>c \<in> set t. numericChar c"
proof (cases t)
  case Nil
  with assms show ?thesis by (simp add: ExponentPart_def)
next
  case (Cons c r)
  with assms show ?thesis
    by (auto simp: ExponentPart_def list_all_iff numericChar_def isHexDigit_def
             split: if_splits)
qed

lemma pow10_pos [simp]: "0 < pow10 e"
  by (simp add: pow10_def)

lemma StrUnsigned_numeric:
  assumes "StrUnsignedDecimalLiteral s = Some q"
  shows "(\<forall>c \<in> set s. numericChar c) \<and> 0 \<le> q"
proof -
  define ip where "ip = takeWhile isDigit s"
  define r1 where "r1 = dropWhile isDigit s"
  define fp where "fp = (case r1 of c # t \<Rightarrow> if c = 46 then takeWhile isDigit t else [] | [] \<Rightarrow> [])"
  define r2 where "r2 = (case r1 of c # t \<Rightarrow> if c = 46 then dropWhile isDigit t else r1 | [] \<Rightarrow> r1)"
  define mant :: rat where "mant = of_int (digitsValue (ip @ fp)) / 10 ^ length fp"
  have split: "(case r1 of c # t \<Rightarrow> if c = 46 then (takeWhile isDigit t, dropWhile isDigit t)
                                 else ([], r1)
                      | [] \<Rightarrow> ([], r1)) = (fp, r2)"
    by (simp add: fp_def r2_def split: list.splits)
  have s: "s = ip @ r1" by (simp add: ip_def r1_def)
  have ipd: "list_all isDigit ip"
    by (auto simp: ip_def list_all_iff dest: set_takeWhileD)
  have fpd: "list_all isDigit fp"
    by (auto simp: fp_def list_all_iff split: list.splits if_splits dest: set_takeWhileD)
  have r1: "r1 = r2 \<or> r1 = 46 # fp @ r2"
    by (auto simp: fp_def r2_def split: list.splits)
  have mant: "0 \<le> mant"
    using digitsValue_nonneg [of "ip @ fp"] ipd fpd by (simp add: mant_def)
  from assms have res: "(case r2 of
                 [] \<Rightarrow> Some mant
               | c # t \<Rightarrow>
                   if c = 101 \<or> c = 69
                   then (case ExponentPart t of None \<Rightarrow> None | Some e \<Rightarrow> Some (mant * pow10 e))
                   else None) = Some q"
    unfolding StrUnsignedDecimalLiteral_def Let_def
      ip_def [symmetric] r1_def [symmetric] split prod.case mant_def [symmetric]
    by (simp split: if_splits)
  have r2n: "(\<forall>c \<in> set r2. numericChar c) \<and> 0 \<le> q"
  proof (cases r2)
    case Nil
    with res mant show ?thesis by simp
  next
    case (Cons c t)
    with res obtain e where c: "c = 101 \<or> c = 69" and e: "ExponentPart t = Some e"
      and q: "q = mant * pow10 e"
      by (auto split: if_splits option.splits)
    have "numericChar c" using c by (auto simp: numericChar_def isHexDigit_def)
    moreover have "0 \<le> q" using mant q by (simp add: less_imp_le)
    ultimately show ?thesis
      using ExponentPart_numeric [OF e] Cons by simp
  qed
  have dot: "numericChar 46" by (simp add: numericChar_def)
  have ipn: "\<forall>c \<in> set ip. numericChar c"
    using ipd by (auto simp: list_all_iff intro: isDigit_numeric)
  have fpn: "\<forall>c \<in> set fp. numericChar c"
    using fpd by (auto simp: list_all_iff intro: isDigit_numeric)
  have "\<forall>c \<in> set r1. numericChar c"
    using r1 r2n fpn dot by auto
  with ipn have "\<forall>c \<in> set s. numericChar c"
    unfolding s by auto
  with r2n show ?thesis by simp
qed

lemma last_dropWhile: "dropWhile P xs \<noteq> [] \<Longrightarrow> last (dropWhile P xs) = last xs"
proof -
  assume ne: "dropWhile P xs \<noteq> []"
  have "last xs = last (takeWhile P xs @ dropWhile P xs)" by simp
  also have "\<dots> = last (dropWhile P xs)" using ne by (rule last_appendR)
  finally show ?thesis by simp
qed

lemma trim_ends:
  assumes "trim s \<noteq> []"
  shows "\<not> isWhiteSpace (hd (trim s)) \<and> \<not> isWhiteSpace (last (trim s))"
proof -
  define a where "a = dropWhile isWhiteSpace s"
  define b where "b = dropWhile isWhiteSpace (rev a)"
  have t: "trim s = rev b" by (simp add: trim_def a_def b_def)
  with assms have b: "b \<noteq> []" by simp
  then have ra: "rev a \<noteq> []" by (auto simp: b_def)
  then have a: "a \<noteq> []" by simp
  have "\<not> isWhiteSpace (hd b)"
    using b unfolding b_def by (rule hd_dropWhile)
  then have l: "\<not> isWhiteSpace (last (trim s))"
    using b by (simp add: t last_rev)
  have "last b = last (rev a)"
    using b unfolding b_def by (rule last_dropWhile)
  also have "\<dots> = hd a" using a by (simp add: last_rev)
  finally have "hd (trim s) = hd a" using b by (simp add: t hd_rev)
  moreover have "\<not> isWhiteSpace (hd a)"
    using a unfolding a_def by (rule hd_dropWhile)
  ultimately show ?thesis using l by simp
qed

lemma trim_trim [simp]: "trim (trim s) = trim s"
proof (cases "trim s = []")
  case True
  then show ?thesis by simp
next
  case False
  with trim_ends [OF False] show ?thesis by (intro trim_id) simp_all
qed

lemma StrDecimalLiteral_Fin:
  assumes "StrDecimalLiteral neg r = Fin q"
  shows "(\<forall>c \<in> set r. numericChar c) \<and> (\<not> neg \<longrightarrow> 0 \<le> q)"
proof -
  from assms have ninf: "r \<noteq> S ''Infinity''"
    by (auto simp: StrDecimalLiteral_def split: if_splits)
  with assms obtain q0 where q0: "StrUnsignedDecimalLiteral r = Some q0"
    and fr: "float_round (if neg then - q0 else q0) = Fin q"
    by (auto simp: StrDecimalLiteral_def split: option.splits)
  from StrUnsigned_numeric [OF q0] have num: "\<forall>c \<in> set r. numericChar c" and q00: "0 \<le> q0"
    by simp_all
  have "\<not> neg \<longrightarrow> 0 \<le> q"
    using fr q00 float_round_nonneg [of q0 q] by auto
  with num show ?thesis by simp
qed

lemma StringToNumber_Fin:
  assumes "StringToNumber str = Fin q" and "trim str \<noteq> []"
  shows "(\<forall>c \<in> set (trim str). numericChar c) \<and> (45 \<notin> set (trim str) \<longrightarrow> 0 \<le> q)"
proof (cases "NonDecimalIntegerLiteral (trim str)")
  case (Some n)
  with assms have fr: "float_round (of_int n) = Fin q"
    by (simp add: StringToNumber_def Let_def)
  from NonDecimal_numeric [OF Some] have "\<forall>c \<in> set (trim str). numericChar c" and "0 \<le> n"
    by simp_all
  moreover from \<open>0 \<le> n\<close> fr have "0 \<le> q"
    using float_round_nonneg [of "of_int n" q] by simp
  ultimately show ?thesis by simp
next
  case None
  obtain c r where t: "trim str = c # r"
    using assms(2) by (cases "trim str") auto
  show ?thesis
  proof (cases "c = 43")
    case True
    with assms None have "StrDecimalLiteral False r = Fin q"
      by (simp add: StringToNumber_def Let_def t)
    from StrDecimalLiteral_Fin [OF this] True show ?thesis
      by (simp add: t numericChar_def)
  next
    case n43: False
    show ?thesis
    proof (cases "c = 45")
      case True
      with assms None have "StrDecimalLiteral True r = Fin q"
        by (simp add: StringToNumber_def Let_def t)
      from StrDecimalLiteral_Fin [OF this] True show ?thesis
        by (simp add: t numericChar_def)
    next
      case False
      with assms None n43 have "StrDecimalLiteral False (trim str) = Fin q"
        by (simp add: StringToNumber_def Let_def t)
      from StrDecimalLiteral_Fin [OF this] show ?thesis by simp
    qed
  qed
qed

lemma parseIntMoney_text:
  assumes "ToString v = Inr s" and "v \<noteq> JNull" and "v \<noteq> JUndefined"
  shows "parseIntMoney v =
           Inr (if trim (filter (\<lambda>c. c \<noteq> 44) s) = [] then 0
                else (case StringToNumber (trim (filter (\<lambda>c. c \<noteq> 44) s)) of
                        Fin q \<Rightarrow> Math_round q | _ \<Rightarrow> 0))"
  using assms by (simp add: parseIntMoney_def Let_def split: jsnum.splits)

lemma parseIntMoney_total:
  "ToString v = Inr s \<Longrightarrow> \<exists>n. parseIntMoney v = Inr n"
  by (simp add: parseIntMoney_def Let_def split: jsnum.splits)

lemma parseIntMoney_nonnumeric:
  assumes "ToString v = Inr s" and "\<exists>c \<in> set (trim (filter (\<lambda>c. c \<noteq> 44) s)). \<not> numericChar c"
  shows "parseIntMoney v = Inr 0"
proof -
  define t where "t = trim (filter (\<lambda>c. c \<noteq> 44) s)"
  have ne: "t \<noteq> []" using assms(2) by (auto simp: t_def)
  have "\<And>q. StringToNumber t \<noteq> Fin q"
  proof
    fix q assume "StringToNumber t = Fin q"
    from StringToNumber_Fin [OF this] ne have "\<forall>c \<in> set t. numericChar c"
      by (simp add: t_def)
    with assms(2) show False by (auto simp: t_def)
  qed
  then show ?thesis
    using assms(1) by (auto simp: parseIntMoney_def Let_def t_def split: jsnum.splits if_splits)
qed

lemma parseIntMoney_nonneg:
  assumes "ToString v = Inr s" and "45 \<notin> set s" and "parseIntMoney v = Inr n"
  shows "0 \<le> n"
proof -
  define t where "t = trim (filter (\<lambda>c. c \<noteq> 44) s)"
  have m: "45 \<notin> set t"
    using assms(2) set_trim [of "filter (\<lambda>c. c \<noteq> 44) s"] by (auto simp: t_def)
  show ?thesis
  proof (cases "v = JNull \<or> v = JUndefined \<or> t = []")
    case True
    with assms show ?thesis by (auto simp: parseIntMoney_def Let_def t_def split: if_splits)
  next
    case False
    then have ne: "t \<noteq> []" by simp
    show ?thesis
    proof (cases "StringToNumber t")
      case (Fin q)
      from StringToNumber_Fin [OF Fin] ne m have "0 \<le> q" by (simp add: t_def)
      then have "0 \<le> Math_round q" by (rule Math_round_nonneg)
      with assms False Fin show ?thesis
        by (auto simp: parseIntMoney_def Let_def t_def split: if_splits)
    qed (use assms False in \<open>auto simp: parseIntMoney_def Let_def t_def split: if_splits\<close>)
  qed
qed

lemma StringToNumber_decimal:
  assumes ip: "list_all isDigit ip" and fp: "list_all isDigit fp" and ne: "ip @ fp \<noteq> []"
  shows "StringToNumber (ip @ [46] @ fp)
           = float_round (of_int (digitsValue (ip @ fp)) / 10 ^ length fp)"
proof -
  define t where "t = ip @ 46 # fp"
  have nd: "\<not> isDigit 46" by (simp add: isDigit_def)
  have tne: "t \<noteq> []" by (simp add: t_def)
  have hd: "isDigit (hd t) \<or> hd t = 46"
    using ip by (cases ip) (simp_all add: t_def)
  have "isDigit (last t) \<or> last t = 46"
    using fp by (cases fp rule: rev_cases) (simp_all add: t_def)
  with hd have tr: "trim t = t"
    using tne by (intro trim_id) (auto simp: isWhiteSpace_def isDigit_def)
  have tw: "takeWhile isDigit t = ip"
    using ip nd by (simp add: t_def takeWhile_tail list_all_iff)
  have dw: "dropWhile isDigit t = 46 # fp"
    using ip nd by (simp add: t_def dropWhile_append3 list_all_iff)
  have tw2: "takeWhile isDigit fp = fp" and dw2: "dropWhile isDigit fp = []"
    using fp by (simp_all add: list_all_iff)
  have un: "StrUnsignedDecimalLiteral t = Some (of_int (digitsValue (ip @ fp)) / 10 ^ length fp)"
    using ne by (simp add: StrUnsignedDecimalLiteral_def Let_def tw dw tw2 dw2)
  have inf: "t \<noteq> S ''Infinity''"
    using hd tne by (cases t) (auto simp: S_Infinity isDigit_def)
  have dec: "StrDecimalLiteral False t = float_round (of_int (digitsValue (ip @ fp)) / 10 ^ length fp)"
    using inf by (simp add: StrDecimalLiteral_def un)
  have sel: "(case t of [] \<Rightarrow> NaN
              | c # r \<Rightarrow> if c = 43 then StrDecimalLiteral False r
                        else if c = 45 then StrDecimalLiteral True r
                        else StrDecimalLiteral False t) = StrDecimalLiteral False t"
    using hd tne by (cases t) (auto simp: isDigit_def)
  have nond: "NonDecimalIntegerLiteral t = None"
  proof (cases ip)
    case Nil
    then show ?thesis by (simp add: t_def NonDecimalIntegerLiteral_def split: list.splits)
  next
    case (Cons a ip')
    show ?thesis
    proof (cases ip')
      case Nil
      with Cons show ?thesis by (simp add: t_def NonDecimalIntegerLiteral_def)
    next
      case (Cons b ip'')
      with \<open>ip = a # ip'\<close> ip have "isDigit b" by simp
      then have "b \<noteq> 120 \<and> b \<noteq> 88 \<and> b \<noteq> 111 \<and> b \<noteq> 79 \<and> b \<noteq> 98 \<and> b \<noteq> 66"
        by (auto simp: isDigit_def)
      with Cons \<open>ip = a # ip'\<close> show ?thesis
        by (simp add: t_def NonDecimalIntegerLiteral_def)
    qed
  qed
  have "StringToNumber t = float_round (of_int (digitsValue (ip @ fp)) / 10 ^ length fp)"
    using tne by (simp add: StringToNumber_def Let_def tr nond sel dec)
  then show ?thesis by (simp add: t_def)
qed

lemma float_round_numeral:
  "numeral k \<le> (2::int) ^ 53 \<Longrightarrow> float_round (numeral k) = Fin (numeral k)"
  "numeral k \<le> (2::int) ^ 53 \<Longrightarrow> float_round (- numeral k) = Fin (- numeral k)"
  "float_round 0 = Fin 0"
  using float_round_int [of "numeral k"] float_round_int [of "- numeral k"]
  by (simp_all add: float_round_def)

lemmas normalizer_eval =
  normalizeRows_def normalizeRow_def rowDate_def andThen_def orElse_def getProp_def isObject_def
  DATE_KEYS_def DATE_FALLBACK_KEYS_def CATEGORY_KEYS_def GROUP_KEYS_def GROSS_KEYS_def
  DEDUCTIONS_KEYS_def NET_KEYS_def CURRENCY_KEYS_def SEQNR_KEYS_def FPBEG_KEYS_def FPEND_KEYS_def
  S_def normalizeDate_def parseIntMoney_def trim_def isWhiteSpace_def isDigit_def
  StringToNumber_def NonDecimalIntegerLiteral_def StrDecimalLiteral_def
  StrUnsignedDecimalLiteral_def ExponentPart_def digitsValue_def NumberToString_def z2_def
  digits_of.simps isIsoDate_def Let_def float_round_numeral

section \<open>The field normalizer: rows\<close>

lemma collect_Inr:
  "collect (map f xs) = Inr ys \<Longrightarrow> list_all2 (\<lambda>x y. f x = Inr y) xs ys"
proof (induction xs arbitrary: ys)
  case Nil
  then show ?case by simp
next
  case (Cons x xs)
  then show ?case by (auto split: sum.splits)
qed

lemma collect_member:
  assumes "collect (map f xs) = Inr ys" and "y \<in> set ys"
  shows "\<exists>x \<in> set xs. f x = Inr y"
proof -
  from collect_Inr [OF assms(1)] have l: "list_all2 (\<lambda>x y. f x = Inr y) xs ys" .
  from assms(2) obtain i where "i < length ys" and "ys ! i = y"
    by (auto simp: in_set_conv_nth)
  with l have "f (xs ! i) = Inr y" and "i < length xs"
    by (auto simp: list_all2_conv_all_nth)
  then show ?thesis by (auto intro: nth_mem)
qed

lemma normalizeRow_fields:
  assumes "normalizeRow yr mo row = Inr t"
  shows "year t = yr \<and> month t = mo
         \<and> rowDate yr mo row = Inr (date t)
         \<and> (\<exists>c. ToString (orElse (firstPresent row CATEGORY_KEYS) (JStr (S ''UNKNOWN''))) = Inr c
                \<and> category t = (if trim c \<noteq> [] then trim c else S ''UNKNOWN''))
         \<and> (\<exists>g. ToString (orElse (firstPresent row GROUP_KEYS) (JStr [])) = Inr g \<and> group t = trim g)
         \<and> parseIntMoney (firstPresent row GROSS_KEYS) = Inr (gross t)
         \<and> parseIntMoney (firstPresent row DEDUCTIONS_KEYS) = Inr (deductions t)
         \<and> parseIntMoney (firstPresent row NET_KEYS) = Inr (net t)
         \<and> (\<exists>c. ToString (orElse (firstPresent row CURRENCY_KEYS) (JStr (S ''KRW''))) = Inr c
                \<and> currency t = (if trim c \<noteq> [] then trim c else S ''KRW''))
         \<and> (\<exists>q. ToString (orElse (firstPresent row SEQNR_KEYS) (JStr [])) = Inr q \<and> seqnr t = trim q)
         \<and> normalizeDate (firstPresent row FPBEG_KEYS) = Inr (fpbeg t)
         \<and> normalizeDate (firstPresent row FPEND_KEYS) = Inr (fpend t)"
  using assms by (auto simp: normalizeRow_def andThen_def split: sum.splits)

text \<open>
  Claim C10. \<open>normalizeRows\<close> gives the same result on a list of rows and on the list without
  its entries that are \<open>null\<close> or not objects (primitives and \<open>undefined\<close>); when it returns,
  it returns one transaction for each remaining row, in order, and each of them carries the
  year and the month that were passed in, whatever the row holds.
\<close>

theorem normalizeRows_drops_and_stamps:
  "normalizeRows yr mo rows = normalizeRows yr mo (filter isObject rows)
   \<and> \<not> isObject JNull \<and> \<not> isObject JUndefined \<and> \<not> isObject (JBool b) \<and> \<not> isObject (JNum n)
   \<and> \<not> isObject (JStr s)
   \<and> (normalizeRows yr mo rows = Inr txns \<longrightarrow>
         list_all2 (\<lambda>row t. normalizeRow yr mo row = Inr t) (filter isObject rows) txns
         \<and> length txns = length (filter isObject rows)
         \<and> (\<forall>t \<in> set txns. year t = yr \<and> month t = mo))"
proof -
  have "list_all2 (\<lambda>row t. normalizeRow yr mo row = Inr t) (filter isObject rows) txns
         \<and> length txns = length (filter isObject rows)
         \<and> (\<forall>t \<in> set txns. year t = yr \<and> month t = mo)"
    if r: "normalizeRows yr mo rows = Inr txns"
  proof -
    from r have c: "collect (map (normalizeRow yr mo) (filter isObject rows)) = Inr txns"
      by (simp add: normalizeRows_def)
    from collect_Inr [OF c]
    have l: "list_all2 (\<lambda>row t. normalizeRow yr mo row = Inr t) (filter isObject rows) txns" .
    have "\<forall>t \<in> set txns. year t = yr \<and> month t = mo"
    proof
      fix t assume "t \<in> set txns"
      from collect_member [OF c this] obtain row where "normalizeRow yr mo row = Inr t" by blast
      then show "year t = yr \<and> month t = mo" by (simp add: normalizeRow_fields)
    qed
    with l show ?thesis by (auto dest: list_all2_lengthD)
  qed
  moreover have "normalizeRows yr mo rows = normalizeRows yr mo (filter isObject rows)"
    by (simp add: normalizeRows_def)
  moreover have "\<not> isObject JNull \<and> \<not> isObject JUndefined \<and> \<not> isObject (JBool b)
      \<and> \<not> isObject (JNum n) \<and> \<not> isObject (JStr s)"
    by (simp add: isObject_def)
  ultimately show ?thesis by blast
qed

theorem normalizeRows_drops_and_stamps_witness:
  "normalizeRows 2024 3
     [JNull, JNum 7, JStr (S ''x''),
      JObj [(S ''year'', JNum 1999), (S ''month'', JNum 12), (S ''bet01'', JStr (S ''10''))]]
   = Inr [\<lparr> year = 2024, month = 3, date = S ''2024-03-01'', category = S ''UNKNOWN'', group = [],
            gross = 10, deductions = 0, net = 0, currency = S ''KRW'', seqnr = [], fpbeg = [],
            fpend = [] \<rparr>]
   \<and> filter isObject
        [JNull, JNum 7, JStr (S ''x''),
         JObj [(S ''year'', JNum 1999), (S ''month'', JNum 12), (S ''bet01'', JStr (S ''10''))]]
      = [JObj [(S ''year'', JNum 1999), (S ''month'', JNum 12), (S ''bet01'', JStr (S ''10''))]]
   \<and> length
        [\<lparr> year = 2024, month = 3, date = S ''2024-03-01'', category = S ''UNKNOWN'', group = [],
           gross = 10, deductions = 0, net = (0::int), currency = S ''KRW'', seqnr = [], fpbeg = [],
           fpend = [] \<rparr>]
      = length
          (filter isObject
             [JNull, JNum 7, JStr (S ''x''),
              JObj [(S ''year'', JNum 1999), (S ''month'', JNum 12), (S ''bet01'', JStr (S ''10''))]])"
proof -
  have e: "normalizeRows 2024 3
     [JNull, JNum 7, JStr (S ''x''),
      JObj [(S ''year'', JNum 1999), (S ''month'', JNum 12), (S ''bet01'', JStr (S ''10''))]]
   = Inr [\<lparr> year = 2024, month = 3, date = S ''2024-03-01'', category = S ''UNKNOWN'', group = [],
            gross = 10, deductions = 0, net = 0, currency = S ''KRW'', seqnr = [], fpbeg = [],
            fpend = [] \<rparr>]"
    by (simp add: normalizer_eval)
  have f: "filter isObject
        [JNull, JNum 7, JStr (S ''x''),
         JObj [(S ''year'', JNum 1999), (S ''month'', JNum 12), (S ''bet01'', JStr (S ''10''))]]
      = [JObj [(S ''year'', JNum 1999), (S ''month'', JNum 12), (S ''bet01'', JStr (S ''10''))]]"
    by (simp add: isObject_def)
  from e f normalizeRows_drops_and_stamps [of 2024 3
     "[JNull, JNum 7, JStr (S ''x''),
      JObj [(S ''year'', JNum 1999), (S ''month'', JNum 12), (S ''bet01'', JStr (S ''10''))]]"]
  show ?thesis by simp
qed

section \<open>The field normalizer: dates\<close>

lemma filter_isDigit_separators:
  "filter isDigit (map (\<lambda>c. if c = 46 \<or> c = 47 then 45 else c) raw) = filter isDigit raw"
  by (induction raw) (auto simp: isDigit_def)

lemma isIsoDate_digits: "isIsoDate n \<Longrightarrow> length (filter isDigit n) = 8"
  by (auto simp: isIsoDate_def isDigit_def split: list.splits)

lemma normalizeDate_text:
  "normalizeDate (JStr s) =
     Inr (if length (filter isDigit (trim s)) = 8 then hyphenate (filter isDigit (trim s))
          else trim s)"
proof -
  define raw where "raw = trim s"
  define n where "n = map (\<lambda>c. if c = 46 \<or> c = 47 then 45 else c) raw"
  have "\<not> isIsoDate n" if "length (filter isDigit raw) \<noteq> 8"
  proof
    assume "isIsoDate n"
    then have "length (filter isDigit n) = 8" by (rule isIsoDate_digits)
    with that show False by (simp add: n_def filter_isDigit_separators)
  qed
  then show ?thesis
    by (auto simp: normalizeDate_def Let_def raw_def [symmetric] n_def [symmetric] hyphenate_def)
qed

lemma isIsoDate_shape:
  assumes "isIsoDate s"
  shows "trim s = s \<and> length (filter isDigit s) = 8 \<and> hyphenate (filter isDigit s) = s"
proof -
  from assms obtain y1 y2 y3 y4 m1 m2 d1 d2 where
    s: "s = [y1, y2, y3, y4, 45, m1, m2, 45, d1, d2]"
    and d: "isDigit y1" "isDigit y2" "isDigit y3" "isDigit y4" "isDigit m1" "isDigit m2"
      "isDigit d1" "isDigit d2"
    by (auto simp: isIsoDate_def split: list.splits)
  have n45: "\<not> isDigit 45" by (simp add: isDigit_def)
  have "trim s = s"
    using d by (intro trim_id) (auto simp: s dest: isDigit_not_space)
  moreover have "filter isDigit s = [y1, y2, y3, y4, m1, m2, d1, d2]"
    using d n45 by (simp add: s)
  ultimately show ?thesis by (simp add: hyphenate_def s)
qed

lemma separated_shape:
  assumes "length y = 4" and "length m = 2" and "length d = 2" and "list_all isDigit (y @ m @ d)"
    and "\<not> isDigit a" and "\<not> isDigit b"
  shows "trim (y @ [a] @ m @ [b] @ d) = y @ [a] @ m @ [b] @ d
         \<and> length (filter isDigit (y @ [a] @ m @ [b] @ d)) = 8
         \<and> hyphenate (filter isDigit (y @ [a] @ m @ [b] @ d)) = y @ [45] @ m @ [45] @ d"
proof -
  have y: "filter isDigit y = y" and m: "filter isDigit m = m" and d: "filter isDigit d = d"
    using assms(4) by (simp_all add: list_all_iff)
  have f: "filter isDigit (y @ [a] @ m @ [b] @ d) = y @ m @ d"
    using assms(5,6) by (simp add: y m d)
  have yne: "y \<noteq> []" and dne: "d \<noteq> []" using assms(1,3) by auto
  have "isDigit (hd (y @ [a] @ m @ [b] @ d))"
    using yne assms(4) by (cases y) simp_all
  moreover have "isDigit (last (y @ [a] @ m @ [b] @ d))"
    using dne assms(4) by (cases d rule: rev_cases) simp_all
  ultimately have t: "trim (y @ [a] @ m @ [b] @ d) = y @ [a] @ m @ [b] @ d"
    by (intro trim_id) (auto dest: isDigit_not_space)
  have "length (y @ m @ d) = 8 \<and> hyphenate (y @ m @ d) = y @ [45] @ m @ [45] @ d"
    using assms(1,2,3) by (simp add: hyphenate_def)
  with t show ?thesis
    unfolding f by simp
qed

text \<open>
  Claim C7, amended. For a string, \<open>normalizeDate\<close> trims the surrounding white space; if
  what is left holds exactly eight digits, whatever separates them, the result is those
  digits as \<open>YYYY-MM-DD\<close>; any other string is returned trimmed and otherwise unchanged. So
  an eight-digit string is hyphenated, a string of the form \<open>YYYY-MM-DD\<close> is returned as it
  is, and the forms with dots or slashes are converted; \<open>null\<close> and \<open>undefined\<close> give the
  empty string.
\<close>

theorem normalizeDate_eight_digits:
  "normalizeDate (JStr s) =
     Inr (if length (filter isDigit (trim s)) = 8 then hyphenate (filter isDigit (trim s))
          else trim s)
   \<and> (length s = 8 \<and> list_all isDigit s \<longrightarrow> normalizeDate (JStr s) = Inr (hyphenate s))
   \<and> (isIsoDate s \<longrightarrow> normalizeDate (JStr s) = Inr s)
   \<and> (length y = 4 \<and> length m = 2 \<and> length d = 2 \<and> list_all isDigit (y @ m @ d)
        \<and> (a = 46 \<or> a = 47) \<and> (b = 46 \<or> b = 47)
        \<longrightarrow> normalizeDate (JStr (y @ [a] @ m @ [b] @ d)) = Inr (y @ [45] @ m @ [45] @ d))
   \<and> (trim s = s \<and> length (filter isDigit s) \<noteq> 8 \<longrightarrow> normalizeDate (JStr s) = Inr s)
   \<and> normalizeDate JNull = Inr [] \<and> normalizeDate JUndefined = Inr []"
proof -
  have 1: "normalizeDate (JStr s) = Inr (hyphenate s)" if "length s = 8" and "list_all isDigit s"
  proof -
    have "trim s = s" using that(2) by (rule trim_digits)
    moreover have "filter isDigit s = s" using that(2) by (simp add: list_all_iff)
    ultimately show ?thesis using that(1) by (simp add: normalizeDate_text)
  qed
  have 2: "normalizeDate (JStr s) = Inr s" if "isIsoDate s"
    using isIsoDate_shape [OF that] by (simp add: normalizeDate_text)
  have 3: "normalizeDate (JStr (y @ [a] @ m @ [b] @ d)) = Inr (y @ [45] @ m @ [45] @ d)"
    if "length y = 4" "length m = 2" "length d = 2" "list_all isDigit (y @ m @ d)"
      "a = 46 \<or> a = 47" "b = 46 \<or> b = 47"
  proof -
    have "\<not> isDigit a" and "\<not> isDigit b" using that(5,6) by (auto simp: isDigit_def)
    from separated_shape [OF that(1-4) this] show ?thesis
      by (simp add: normalizeDate_text)
  qed
  have 4: "normalizeDate (JStr s) = Inr s" if "trim s = s" "length (filter isDigit s) \<noteq> 8"
    using that by (simp add: normalizeDate_text)
  have 5: "normalizeDate JNull = Inr [] \<and> normalizeDate JUndefined = Inr []"
    by (simp add: normalizeDate_def)
  from 1 2 3 4 5 normalizeDate_text [of s] show ?thesis by blast
qed

theorem normalizeDate_eight_digits_witness:
  "length (S ''20240315'') = 8 \<and> list_all isDigit (S ''20240315'')
   \<and> normalizeDate (JStr (S ''20240315'')) = Inr (S ''2024-03-15'')
   \<and> isIsoDate (S ''2024-03-15'')
   \<and> normalizeDate (JStr (S ''2024-03-15'')) = Inr (S ''2024-03-15'')
   \<and> normalizeDate (JStr (S ''2024'' @ [46] @ S ''03'' @ [46] @ S ''15'')) = Inr (S ''2024-03-15'')
   \<and> normalizeDate (JStr (S ''2024'' @ [47] @ S ''03'' @ [47] @ S ''15'')) = Inr (S ''2024-03-15'')
   \<and> trim (S ''2024-3-15'') = S ''2024-3-15'' \<and> length (filter isDigit (S ''2024-3-15'')) \<noteq> 8
   \<and> normalizeDate (JStr (S ''2024-3-15'')) = Inr (S ''2024-3-15'')"
proof -
  have h1: "length (S ''20240315'') = 8 \<and> list_all isDigit (S ''20240315'')"
    by (simp add: S_def isDigit_def)
  have v1: "hyphenate (S ''20240315'') = S ''2024-03-15''"
    by (simp add: S_def hyphenate_def)
  have h2: "isIsoDate (S ''2024-03-15'')"
    by (simp add: S_def isIsoDate_def isDigit_def)
  have h3: "length (S ''2024'') = 4 \<and> length (S ''03'') = 2 \<and> length (S ''15'') = 2
            \<and> list_all isDigit (S ''2024'' @ S ''03'' @ S ''15'')"
    by (simp add: S_def isDigit_def)
  have v3: "S ''2024'' @ [45] @ S ''03'' @ [45] @ S ''15'' = S ''2024-03-15''"
    by (simp add: S_def)
  have h4: "trim (S ''2024-3-15'') = S ''2024-3-15'' \<and> length (filter isDigit (S ''2024-3-15'')) \<noteq> 8"
    by (simp add: S_def trim_def isWhiteSpace_def isDigit_def)
  from normalizeDate_eight_digits [of "S ''20240315''"]
  have "length (S ''20240315'') = 8 \<and> list_all isDigit (S ''20240315'')
        \<longrightarrow> normalizeDate (JStr (S ''20240315'')) = Inr (hyphenate (S ''20240315''))"
    by blast
  with h1 v1 have r1: "normalizeDate (JStr (S ''20240315'')) = Inr (S ''2024-03-15'')" by simp
  from normalizeDate_eight_digits [of "S ''2024-03-15''"]
  have "isIsoDate (S ''2024-03-15'')
        \<longrightarrow> normalizeDate (JStr (S ''2024-03-15'')) = Inr (S ''2024-03-15'')"
    by blast
  with h2 have r2: "normalizeDate (JStr (S ''2024-03-15'')) = Inr (S ''2024-03-15'')" by simp
  from normalizeDate_eight_digits [of "[]" "S ''2024''" "S ''03''" "S ''15''" 46 46]
  have "length (S ''2024'') = 4 \<and> length (S ''03'') = 2 \<and> length (S ''15'') = 2
        \<and> list_all isDigit (S ''2024'' @ S ''03'' @ S ''15'')
        \<longrightarrow> normalizeDate (JStr (S ''2024'' @ [46] @ S ''03'' @ [46] @ S ''15''))
            = Inr (S ''2024'' @ [45] @ S ''03'' @ [45] @ S ''15'')"
    by blast
  with h3 v3
  have r3: "normalizeDate (JStr (S ''2024'' @ [46] @ S ''03'' @ [46] @ S ''15'')) = Inr (S ''2024-03-15'')"
    by simp
  from normalizeDate_eight_digits [of "[]" "S ''2024''" "S ''03''" "S ''15''" 47 47]
  have "length (S ''2024'') = 4 \<and> length (S ''03'') = 2 \<and> length (S ''15'') = 2
        \<and> list_all isDigit (S ''2024'' @ S ''03'' @ S ''15'')
        \<longrightarrow> normalizeDate (JStr (S ''2024'' @ [47] @ S ''03'' @ [47] @ S ''15''))
            = Inr (S ''2024'' @ [45] @ S ''03'' @ [45] @ S ''15'')"
    by blast
  with h3 v3
  have r4: "normalizeDate (JStr (S ''2024'' @ [47] @ S ''03'' @ [47] @ S ''15'')) = Inr (S ''2024-03-15'')"
    by simp
  from normalizeDate_eight_digits [of "S ''2024-3-15''"]
  have "trim (S ''2024-3-15'') = S ''2024-3-15'' \<and> length (filter isDigit (S ''2024-3-15'')) \<noteq> 8
        \<longrightarrow> normalizeDate (JStr (S ''2024-3-15'')) = Inr (S ''2024-3-15'')"
    by blast
  with h4 have r5: "normalizeDate (JStr (S ''2024-3-15'')) = Inr (S ''2024-3-15'')" by simp
  from h1 h2 h4 r1 r2 r3 r4 r5 show ?thesis by blast
qed

theorem normalizeDate_other_input_counterexample:
  "normalizeDate (JStr (S ''15.03.2024'')) = Inr (S ''1503-20-24'')
   \<and> S ''1503-20-24'' \<noteq> S ''15.03.2024''"
  by (simp add: normalizeDate_def Let_def S_def trim_def isWhiteSpace_def isDigit_def)

section \<open>The field normalizer: aliases and defaults\<close>

lemma firstPresent_find:
  "firstPresent row keys =
     (case find (\<lambda>k. present (getProp row k)) keys of
        None \<Rightarrow> JUndefined
      | Some k \<Rightarrow> getProp row k)"
  by (induction keys) (simp_all add: present_def Let_def)

lemma firstPresent_undefined_iff:
  "firstPresent row keys = JUndefined \<longleftrightarrow> (\<forall>k \<in> set keys. \<not> present (getProp row k))"
proof (induction keys)
  case Nil
  then show ?case by simp
next
  case (Cons k keys)
  then show ?case by (auto simp: present_def Let_def)
qed

lemma trim_UNKNOWN: "trim (S ''UNKNOWN'') = S ''UNKNOWN''" and trim_KRW: "trim (S ''KRW'') = S ''KRW''"
  by (simp_all add: S_def trim_def isWhiteSpace_def)

lemma S_nonempty: "S ''UNKNOWN'' \<noteq> []" "S ''KRW'' \<noteq> []"
  by (simp_all add: S_def)

lemma normalizeRow_defaults:
  assumes "normalizeRow yr mo row = Inr t"
  shows "(firstPresent row CATEGORY_KEYS = JUndefined \<longrightarrow> category t = S ''UNKNOWN'')
       \<and> (firstPresent row GROUP_KEYS = JUndefined \<longrightarrow> group t = [])
       \<and> (firstPresent row SEQNR_KEYS = JUndefined \<longrightarrow> seqnr t = [])
       \<and> (firstPresent row GROSS_KEYS = JUndefined \<longrightarrow> gross t = 0)
       \<and> (firstPresent row DEDUCTIONS_KEYS = JUndefined \<longrightarrow> deductions t = 0)
       \<and> (firstPresent row NET_KEYS = JUndefined \<longrightarrow> net t = 0)
       \<and> (firstPresent row CURRENCY_KEYS = JUndefined \<longrightarrow> currency t = S ''KRW'')
       \<and> (firstPresent row DATE_KEYS = JUndefined \<longrightarrow>
            (\<exists>d2. normalizeDate (firstPresent row DATE_FALLBACK_KEYS) = Inr d2
                  \<and> date t = (if d2 \<noteq> [] then d2 else firstOfMonth yr mo)))
       \<and> (firstPresent row DATE_KEYS = JUndefined \<and> firstPresent row DATE_FALLBACK_KEYS = JUndefined
            \<longrightarrow> date t = firstOfMonth yr mo)"
proof -
  note f = normalizeRow_fields [OF assms]
  have cat: "firstPresent row CATEGORY_KEYS = JUndefined \<longrightarrow> category t = S ''UNKNOWN''"
    using f by (auto simp: orElse_def trim_UNKNOWN)
  have grp: "firstPresent row GROUP_KEYS = JUndefined \<longrightarrow> group t = []"
    using f by (auto simp: orElse_def)
  have seq: "firstPresent row SEQNR_KEYS = JUndefined \<longrightarrow> seqnr t = []"
    using f by (auto simp: orElse_def)
  have gr: "firstPresent row GROSS_KEYS = JUndefined \<longrightarrow> gross t = 0"
    using f by (auto simp: parseIntMoney_def)
  have de: "firstPresent row DEDUCTIONS_KEYS = JUndefined \<longrightarrow> deductions t = 0"
    using f by (auto simp: parseIntMoney_def)
  have ne: "firstPresent row NET_KEYS = JUndefined \<longrightarrow> net t = 0"
    using f by (auto simp: parseIntMoney_def)
  have cur: "firstPresent row CURRENCY_KEYS = JUndefined \<longrightarrow> currency t = S ''KRW''"
    using f by (auto simp: orElse_def trim_KRW)
  have rd: "rowDate yr mo row = Inr (date t)" using f by simp
  have d1: "firstPresent row DATE_KEYS = JUndefined \<longrightarrow>
            (\<exists>d2. normalizeDate (firstPresent row DATE_FALLBACK_KEYS) = Inr d2
                  \<and> date t = (if d2 \<noteq> [] then d2 else firstOfMonth yr mo))"
    using rd by (auto simp: rowDate_def andThen_def normalizeDate_def firstOfMonth_def
                      split: sum.splits if_splits)
  have d2: "firstPresent row DATE_KEYS = JUndefined \<and> firstPresent row DATE_FALLBACK_KEYS = JUndefined
            \<longrightarrow> date t = firstOfMonth yr mo"
    using rd by (auto simp: rowDate_def andThen_def normalizeDate_def firstOfMonth_def)
  from cat grp seq gr de ne cur d1 d2 show ?thesis by blast
qed

lemma normalizeRow_all_absent:
  assumes "\<forall>k. \<not> present (getProp row k)"
  shows "normalizeRow yr mo row =
           Inr \<lparr> year = yr, month = mo, date = firstOfMonth yr mo, category = S ''UNKNOWN'',
                 group = [], gross = 0, deductions = 0, net = 0, currency = S ''KRW'', seqnr = [],
                 fpbeg = [], fpend = [] \<rparr>"
proof -
  have u: "\<And>keys. firstPresent row keys = JUndefined"
    using assms by (simp add: firstPresent_undefined_iff)
  show ?thesis
    by (simp add: normalizeRow_def rowDate_def andThen_def u orElse_def normalizeDate_def
        parseIntMoney_def trim_UNKNOWN trim_KRW S_nonempty firstOfMonth_def)
qed

lemma normalizeRow_date:
  assumes "normalizeRow yr mo row = Inr t"
  shows "\<exists>d1. normalizeDate (firstPresent row DATE_KEYS) = Inr d1
           \<and> (if d1 \<noteq> [] then date t = d1
               else \<exists>d2. normalizeDate (firstPresent row DATE_FALLBACK_KEYS) = Inr d2
                      \<and> date t = (if d2 \<noteq> [] then d2 else firstOfMonth yr mo))"
proof -
  from normalizeRow_fields [OF assms] have rd: "rowDate yr mo row = Inr (date t)" by simp
  then show ?thesis
    by (auto simp: rowDate_def andThen_def firstOfMonth_def split: sum.splits if_splits)
qed

text \<open>
  Claim C8, amended. \<open>firstPresent\<close> returns the value of the first key of the list whose
  value in the row is present (not \<open>undefined\<close>, \<open>null\<close> or the empty string), so a present
  primary alias wins over every later one, and \<open>undefined\<close> when no key has such a value.
  Every field of a produced transaction is computed from the first present value of its
  alias list. When no alias of a field is present the field gets its default: \<open>UNKNOWN\<close> for
  the category, the empty string for group and sequence id, 0 for the three amounts, \<open>KRW\<close>
  for the currency. The date is the normalized first present value of the date aliases
  when that is not empty. When no date alias is present, or its value normalizes to the
  empty string, the period-end aliases \<open>fpend\<close>, \<open>fpEnd\<close>, \<open>fpendTxt\<close> are tried next: the date
  is the normalized first present value of these when that is not empty, and the first of
  the month only when they give no date either. A row without any present value yields
  exactly the defaults.
\<close>

theorem firstPresent_alias_order_and_defaults:
  "firstPresent row keys =
     (case find (\<lambda>k. present (getProp row k)) keys of
        None \<Rightarrow> JUndefined
      | Some k \<Rightarrow> getProp row k)
   \<and> (present (getProp row k) \<longrightarrow> firstPresent row (k # ks) = getProp row k)
   \<and> (firstPresent row keys = JUndefined \<longleftrightarrow> (\<forall>k \<in> set keys. \<not> present (getProp row k)))
   \<and> (normalizeRow yr mo row = Inr t \<longrightarrow>
         parseIntMoney (firstPresent row GROSS_KEYS) = Inr (gross t)
       \<and> parseIntMoney (firstPresent row DEDUCTIONS_KEYS) = Inr (deductions t)
       \<and> parseIntMoney (firstPresent row NET_KEYS) = Inr (net t)
       \<and> (\<exists>c. ToString (orElse (firstPresent row CATEGORY_KEYS) (JStr (S ''UNKNOWN''))) = Inr c
              \<and> category t = (if trim c \<noteq> [] then trim c else S ''UNKNOWN''))
       \<and> (\<exists>g. ToString (orElse (firstPresent row GROUP_KEYS) (JStr [])) = Inr g \<and> group t = trim g)
       \<and> (\<exists>c. ToString (orElse (firstPresent row CURRENCY_KEYS) (JStr (S ''KRW''))) = Inr c
              \<and> currency t = (if trim c \<noteq> [] then trim c else S ''KRW''))
       \<and> (\<exists>q. ToString (orElse (firstPresent row SEQNR_KEYS) (JStr [])) = Inr q \<and> seqnr t = trim q)
       \<and> normalizeDate (firstPresent row FPBEG_KEYS) = Inr (fpbeg t)
       \<and> normalizeDate (firstPresent row FPEND_KEYS) = Inr (fpend t)
       \<and> (\<exists>d1. normalizeDate (firstPresent row DATE_KEYS) = Inr d1
              \<and> (if d1 \<noteq> [] then date t = d1
                  else \<exists>d2. normalizeDate (firstPresent row DATE_FALLBACK_KEYS) = Inr d2
                         \<and> date t = (if d2 \<noteq> [] then d2 else firstOfMonth yr mo)))
       \<and> (firstPresent row CATEGORY_KEYS = JUndefined \<longrightarrow> category t = S ''UNKNOWN'')
       \<and> (firstPresent row GROUP_KEYS = JUndefined \<longrightarrow> group t = [])
       \<and> (firstPresent row SEQNR_KEYS = JUndefined \<longrightarrow> seqnr t = [])
       \<and> (firstPresent row GROSS_KEYS = JUndefined \<longrightarrow> gross t = 0)
       \<and> (firstPresent row DEDUCTIONS_KEYS = JUndefined \<longrightarrow> deductions t = 0)
       \<and> (firstPresent row NET_KEYS = JUndefined \<longrightarrow> net t = 0)
       \<and> (firstPresent row CURRENCY_KEYS = JUndefined \<longrightarrow> currency t = S ''KRW'')
       \<and> (firstPresent row DATE_KEYS = JUndefined \<longrightarrow>
            (\<exists>d2. normalizeDate (firstPresent row DATE_FALLBACK_KEYS) = Inr d2
                  \<and> date t = (if d2 \<noteq> [] then d2 else firstOfMonth yr mo)))
       \<and> (firstPresent row DATE_KEYS = JUndefined \<and> firstPresent row DATE_FALLBACK_KEYS = JUndefined
            \<longrightarrow> date t = firstOfMonth yr mo))
   \<and> ((\<forall>k. \<not> present (getProp row k)) \<longrightarrow>
         normalizeRow yr mo row =
           Inr \<lparr> year = yr, month = mo, date = firstOfMonth yr mo, category = S ''UNKNOWN'',
                 group = [], gross = 0, deductions = 0, net = 0, currency = S ''KRW'', seqnr = [],
                 fpbeg = [], fpend = [] \<rparr>)"
proof -
  have 1: "present (getProp row k) \<longrightarrow> firstPresent row (k # ks) = getProp row k"
    by (simp add: present_def Let_def)
  from 1 firstPresent_find [of row keys] firstPresent_undefined_iff [of row keys]
    normalizeRow_fields [of yr mo row t] normalizeRow_defaults [of yr mo row t]
    normalizeRow_date [of yr mo row t] normalizeRow_all_absent [of row yr mo]
  show ?thesis by blast
qed

theorem firstPresent_alias_order_and_defaults_witness:
  "present (getProp (JObj [(S ''bet01'', JStr (S ''5'')), (S ''bet01Txt'', JStr (S ''7''))]) (S ''bet01Txt''))
   \<and> firstPresent (JObj [(S ''bet01'', JStr (S ''5'')), (S ''bet01Txt'', JStr (S ''7''))]) GROSS_KEYS
       = JStr (S ''7'')
   \<and> normalizeRow 2024 3 (JArr [])
       = Inr \<lparr> year = 2024, month = 3, date = S ''2024-03-01'', category = S ''UNKNOWN'',
               group = [], gross = 0, deductions = 0, net = 0, currency = S ''KRW'', seqnr = [],
               fpbeg = [], fpend = [] \<rparr>
   \<and> normalizeRow 2024 3
         (JObj [(S ''fpend'', JStr (S ''20240331'')), (S ''paydt'', JStr (S ''2024.03.25''))])
       = Inr \<lparr> year = 2024, month = 3, date = S ''2024-03-25'', category = S ''UNKNOWN'',
               group = [], gross = 0, deductions = 0, net = 0, currency = S ''KRW'',
               seqnr = [], fpbeg = [], fpend = S ''2024-03-31'' \<rparr>
   \<and> normalizeDate
         (firstPresent
            (JObj [(S ''fpend'', JStr (S ''20240331'')), (S ''paydt'', JStr (S ''2024.03.25''))])
            DATE_KEYS)
       = Inr (S ''2024-03-25'')"
proof -
  have p: "present (getProp (JObj [(S ''bet01'', JStr (S ''5'')), (S ''bet01Txt'', JStr (S ''7''))]) (S ''bet01Txt''))"
    by (simp add: present_def getProp_def S_def)
  have v: "getProp (JObj [(S ''bet01'', JStr (S ''5'')), (S ''bet01Txt'', JStr (S ''7''))]) (S ''bet01Txt'')
           = JStr (S ''7'')"
    by (simp add: getProp_def S_def)
  have k: "GROSS_KEYS = S ''bet01Txt'' # [S ''bet01'', S ''gross'', S ''grossAmt'', S ''totGross'']"
    by (simp add: GROSS_KEYS_def)
  from firstPresent_alias_order_and_defaults
         [of "JObj [(S ''bet01'', JStr (S ''5'')), (S ''bet01Txt'', JStr (S ''7''))]" "[]"
             "S ''bet01Txt''" "[S ''bet01'', S ''gross'', S ''grossAmt'', S ''totGross'']"]
  have "present (getProp (JObj [(S ''bet01'', JStr (S ''5'')), (S ''bet01Txt'', JStr (S ''7''))]) (S ''bet01Txt''))
        \<longrightarrow> firstPresent (JObj [(S ''bet01'', JStr (S ''5'')), (S ''bet01Txt'', JStr (S ''7''))])
              (S ''bet01Txt'' # [S ''bet01'', S ''gross'', S ''grossAmt'', S ''totGross''])
            = getProp (JObj [(S ''bet01'', JStr (S ''5'')), (S ''bet01Txt'', JStr (S ''7''))]) (S ''bet01Txt'')"
    by blast
  with p v k
  have a: "firstPresent (JObj [(S ''bet01'', JStr (S ''5'')), (S ''bet01Txt'', JStr (S ''7''))]) GROSS_KEYS
       = JStr (S ''7'')"
    by simp
  have n: "\<forall>k. \<not> present (getProp (JArr []) k)"
    by (simp add: present_def getProp_def)
  have f: "firstOfMonth 2024 3 = S ''2024-03-01''"
    by (simp add: firstOfMonth_def NumberToString_def z2_def digits_of.simps S_def)
  from firstPresent_alias_order_and_defaults [of "JArr []" "[]" _ _ 2024 3]
  have "(\<forall>k. \<not> present (getProp (JArr []) k)) \<longrightarrow>
         normalizeRow 2024 3 (JArr []) =
           Inr \<lparr> year = 2024, month = 3, date = firstOfMonth 2024 3, category = S ''UNKNOWN'',
                 group = [], gross = 0, deductions = 0, net = 0, currency = S ''KRW'', seqnr = [],
                 fpbeg = [], fpend = [] \<rparr>"
    by blast
  with n f have b: "normalizeRow 2024 3 (JArr [])
       = Inr \<lparr> year = 2024, month = 3, date = S ''2024-03-01'', category = S ''UNKNOWN'',
               group = [], gross = 0, deductions = 0, net = 0, currency = S ''KRW'', seqnr = [],
               fpbeg = [], fpend = [] \<rparr>"
    by simp
  define R where "R = JObj [(S ''fpend'', JStr (S ''20240331'')), (S ''paydt'', JStr (S ''2024.03.25''))]"
  define T where "T = \<lparr> year = 2024, month = 3, date = S ''2024-03-25'', category = S ''UNKNOWN'',
                    group = [], gross = 0, deductions = 0, net = 0, currency = S ''KRW'',
                    seqnr = [], fpbeg = [], fpend = S ''2024-03-31'' \<rparr>"
  have c: "normalizeRow 2024 3 R = Inr T"
    by (simp add: R_def T_def normalizer_eval)
  have d: "normalizeDate (firstPresent R DATE_KEYS) = Inr (S ''2024-03-25'')"
    by (simp add: R_def normalizer_eval)
  from firstPresent_alias_order_and_defaults [of R "[]" _ _ 2024 3 T] c
  have "\<exists>d1. normalizeDate (firstPresent R DATE_KEYS) = Inr d1
              \<and> (if d1 \<noteq> [] then date T = d1
                  else \<exists>d2. normalizeDate (firstPresent R DATE_FALLBACK_KEYS) = Inr d2
                         \<and> date T = (if d2 \<noteq> [] then d2 else firstOfMonth 2024 3))"
    by blast
  with d have "date T = S ''2024-03-25''" by (auto simp: S_def split: if_splits)
  with c d have e: "normalizeRow 2024 3 R = Inr T
                    \<and> normalizeDate (firstPresent R DATE_KEYS) = Inr (date T)"
    by simp
  have "date T = S ''2024-03-25''" by (simp add: T_def)
  with e have "normalizeRow 2024 3 R = Inr T
               \<and> normalizeDate (firstPresent R DATE_KEYS) = Inr (S ''2024-03-25'')"
    by simp
  with p a b show ?thesis unfolding R_def T_def by blast
qed

theorem date_default_counterexample:
  "firstPresent (JObj [(S ''fpend'', JStr (S ''20240131''))]) DATE_KEYS = JUndefined
   \<and> normalizeRows 2024 1 [JObj [(S ''fpend'', JStr (S ''20240131''))]]
       = Inr [\<lparr> year = 2024, month = 1, date = S ''2024-01-31'', category = S ''UNKNOWN'',
                group = [], gross = 0, deductions = 0, net = 0, currency = S ''KRW'', seqnr = [],
                fpbeg = [], fpend = S ''2024-01-31'' \<rparr>]
   \<and> S ''2024-01-31'' \<noteq> firstOfMonth 2024 1"
  by (simp add: normalizer_eval firstOfMonth_def)

section \<open>The field normalizer: amounts\<close>

lemma firstPresent_result:
  "firstPresent row keys = JUndefined \<or> present (firstPresent row keys)"
  by (induction keys) (simp_all add: present_def Let_def)

lemma parseIntMoney_properties:
  assumes "parseIntMoney v = Inr n" and "ToString v = Inr s"
  shows "(45 \<notin> set s \<longrightarrow> 0 \<le> n)
       \<and> (trim (filter (\<lambda>c. c \<noteq> 44) s) = [] \<longrightarrow> n = 0)
       \<and> ((\<exists>c \<in> set (trim (filter (\<lambda>c. c \<noteq> 44) s)). \<not> numericChar c) \<longrightarrow> n = 0)
       \<and> (\<forall>q. v \<noteq> JNull \<and> v \<noteq> JUndefined \<and> trim (filter (\<lambda>c. c \<noteq> 44) s) \<noteq> []
               \<and> StringToNumber (trim (filter (\<lambda>c. c \<noteq> 44) s)) = Fin q
             \<longrightarrow> n = Math_round q \<and> \<bar>of_int n - q\<bar> \<le> 1 / 2)
       \<and> (v \<noteq> JNull \<and> v \<noteq> JUndefined \<and> trim (filter (\<lambda>c. c \<noteq> 44) s) \<noteq> []
            \<and> (\<forall>q. StringToNumber (trim (filter (\<lambda>c. c \<noteq> 44) s)) \<noteq> Fin q) \<longrightarrow> n = 0)"
proof -
  have 1: "45 \<notin> set s \<longrightarrow> 0 \<le> n"
    using parseIntMoney_nonneg [OF assms(2) _ assms(1)] by blast
  have 2: "trim (filter (\<lambda>c. c \<noteq> 44) s) = [] \<longrightarrow> n = 0"
    using assms by (auto simp: parseIntMoney_def Let_def split: if_splits)
  have 3: "(\<exists>c \<in> set (trim (filter (\<lambda>c. c \<noteq> 44) s)). \<not> numericChar c) \<longrightarrow> n = 0"
    using parseIntMoney_nonnumeric [OF assms(2)] assms(1) by auto
  have 4: "\<forall>q. v \<noteq> JNull \<and> v \<noteq> JUndefined \<and> trim (filter (\<lambda>c. c \<noteq> 44) s) \<noteq> []
               \<and> StringToNumber (trim (filter (\<lambda>c. c \<noteq> 44) s)) = Fin q
             \<longrightarrow> n = Math_round q \<and> \<bar>of_int n - q\<bar> \<le> 1 / 2"
    using assms Math_round_nearest by (auto simp: parseIntMoney_text)
  have 5: "v \<noteq> JNull \<and> v \<noteq> JUndefined \<and> trim (filter (\<lambda>c. c \<noteq> 44) s) \<noteq> []
            \<and> (\<forall>q. StringToNumber (trim (filter (\<lambda>c. c \<noteq> 44) s)) \<noteq> Fin q) \<longrightarrow> n = 0"
    using assms by (auto simp: parseIntMoney_text split: jsnum.splits)
  from 1 2 3 4 5 show ?thesis by blast
qed

text \<open>
  Claim C1, amended. Every amount (gross, deductions, net) of every transaction that
  \<open>normalizeRows\<close> produces is an integer, and it may be negative. It is \<open>parseIntMoney\<close> of
  the first present value of the field's aliases in the row: 0 when no alias is present,
  when the text (commas and surrounding white space removed) is empty, when it holds a
  character that no numeric literal has, or when it is not a finite number; otherwise the
  binary64 value of the text rounded to the nearest integer, at most one half away from it.
  It is non-negative whenever the text contains no minus sign.
\<close>

theorem money_fields_rounded_integers:
  assumes "normalizeRows yr mo rows = Inr txns" and "t \<in> set txns"
  shows "\<exists>row \<in> set rows. isObject row \<and>
           (\<forall>(keys, n) \<in> {(GROSS_KEYS, gross t), (DEDUCTIONS_KEYS, deductions t), (NET_KEYS, net t)}.
              parseIntMoney (firstPresent row keys) = Inr n
              \<and> (firstPresent row keys = JUndefined \<longrightarrow> n = 0)
              \<and> (\<exists>s. ToString (firstPresent row keys) = Inr s
                   \<and> (45 \<notin> set s \<longrightarrow> 0 \<le> n)
                   \<and> (trim (filter (\<lambda>c. c \<noteq> 44) s) = [] \<longrightarrow> n = 0)
                   \<and> ((\<exists>c \<in> set (trim (filter (\<lambda>c. c \<noteq> 44) s)). \<not> numericChar c) \<longrightarrow> n = 0)
                   \<and> (\<forall>q. firstPresent row keys \<noteq> JUndefined
                          \<and> StringToNumber (trim (filter (\<lambda>c. c \<noteq> 44) s)) = Fin q
                        \<longrightarrow> n = Math_round q \<and> \<bar>of_int n - q\<bar> \<le> 1 / 2)
                   \<and> (firstPresent row keys \<noteq> JUndefined
                        \<and> (\<forall>q. StringToNumber (trim (filter (\<lambda>c. c \<noteq> 44) s)) \<noteq> Fin q)
                        \<longrightarrow> n = 0)))"
proof -
  from assms(1) have c: "collect (map (normalizeRow yr mo) (filter isObject rows)) = Inr txns"
    by (simp add: normalizeRows_def)
  from collect_member [OF c assms(2)] obtain row
    where row: "row \<in> set rows" "isObject row" and nr: "normalizeRow yr mo row = Inr t"
    by auto
  note f = normalizeRow_fields [OF nr]
  have one: "parseIntMoney v = Inr n
              \<and> (v = JUndefined \<longrightarrow> n = 0)
              \<and> (\<exists>s. ToString v = Inr s
                   \<and> (45 \<notin> set s \<longrightarrow> 0 \<le> n)
                   \<and> (trim (filter (\<lambda>c. c \<noteq> 44) s) = [] \<longrightarrow> n = 0)
                   \<and> ((\<exists>c \<in> set (trim (filter (\<lambda>c. c \<noteq> 44) s)). \<not> numericChar c) \<longrightarrow> n = 0)
                   \<and> (\<forall>q. v \<noteq> JUndefined
                          \<and> StringToNumber (trim (filter (\<lambda>c. c \<noteq> 44) s)) = Fin q
                        \<longrightarrow> n = Math_round q \<and> \<bar>of_int n - q\<bar> \<le> 1 / 2)
                   \<and> (v \<noteq> JUndefined
                        \<and> (\<forall>q. StringToNumber (trim (filter (\<lambda>c. c \<noteq> 44) s)) \<noteq> Fin q)
                        \<longrightarrow> n = 0))"
    if pv: "parseIntMoney v = Inr n" and fp: "v = JUndefined \<or> present v" for v n
  proof -
    have nn: "v \<noteq> JNull"
      using fp by (auto simp: present_def)
    obtain s where s: "ToString v = Inr s"
      using pv by (cases "ToString v") (auto simp: parseIntMoney_def split: if_splits)
    have u: "v = JUndefined \<longrightarrow> n = 0"
      using pv by (auto simp: parseIntMoney_def)
    note props = parseIntMoney_properties [OF pv s]
    have z: "trim (filter (\<lambda>c. c \<noteq> 44) s) = [] \<longrightarrow> n = 0"
      using props by blast
    show ?thesis
    proof (intro conjI exI [of _ s])
      show "parseIntMoney v = Inr n" by (rule pv)
      show "v = JUndefined \<longrightarrow> n = 0" by (rule u)
      show "ToString v = Inr s" by (rule s)
      show "45 \<notin> set s \<longrightarrow> 0 \<le> n" using props by blast
      show "trim (filter (\<lambda>c. c \<noteq> 44) s) = [] \<longrightarrow> n = 0" by (rule z)
      show "(\<exists>c \<in> set (trim (filter (\<lambda>c. c \<noteq> 44) s)). \<not> numericChar c) \<longrightarrow> n = 0"
        using props by blast
      show "\<forall>q. v \<noteq> JUndefined
                          \<and> StringToNumber (trim (filter (\<lambda>c. c \<noteq> 44) s)) = Fin q
                        \<longrightarrow> n = Math_round q \<and> \<bar>of_int n - q\<bar> \<le> 1 / 2"
      proof (intro allI impI)
        fix q
        assume a: "v \<noteq> JUndefined \<and> StringToNumber (trim (filter (\<lambda>c. c \<noteq> 44) s)) = Fin q"
        show "n = Math_round q \<and> \<bar>of_int n - q\<bar> \<le> 1 / 2"
        proof (cases "trim (filter (\<lambda>c. c \<noteq> 44) s) = []")
          case True
          then have "n = 0" using z by simp
          moreover from True a have "q = 0" by (simp add: StringToNumber_def)
          ultimately show ?thesis by simp
        next
          case False
          with a nn props show ?thesis by blast
        qed
      qed
      show "v \<noteq> JUndefined
                        \<and> (\<forall>q. StringToNumber (trim (filter (\<lambda>c. c \<noteq> 44) s)) \<noteq> Fin q)
                        \<longrightarrow> n = 0"
        using props nn z by blast
    qed
  qed
  note r = firstPresent_result [of row]
  from f one [OF _ r [of GROSS_KEYS], of "gross t"] one [OF _ r [of DEDUCTIONS_KEYS], of "deductions t"]
    one [OF _ r [of NET_KEYS], of "net t"]
  have "\<forall>(keys, n) \<in> {(GROSS_KEYS, gross t), (DEDUCTIONS_KEYS, deductions t), (NET_KEYS, net t)}.
              parseIntMoney (firstPresent row keys) = Inr n
              \<and> (firstPresent row keys = JUndefined \<longrightarrow> n = 0)
              \<and> (\<exists>s. ToString (firstPresent row keys) = Inr s
                   \<and> (45 \<notin> set s \<longrightarrow> 0 \<le> n)
                   \<and> (trim (filter (\<lambda>c. c \<noteq> 44) s) = [] \<longrightarrow> n = 0)
                   \<and> ((\<exists>c \<in> set (trim (filter (\<lambda>c. c \<noteq> 44) s)). \<not> numericChar c) \<longrightarrow> n = 0)
                   \<and> (\<forall>q. firstPresent row keys \<noteq> JUndefined
                          \<and> StringToNumber (trim (filter (\<lambda>c. c \<noteq> 44) s)) = Fin q
                        \<longrightarrow> n = Math_round q \<and> \<bar>of_int n - q\<bar> \<le> 1 / 2)
                   \<and> (firstPresent row keys \<noteq> JUndefined
                        \<and> (\<forall>q. StringToNumber (trim (filter (\<lambda>c. c \<noteq> 44) s)) \<noteq> Fin q)
                        \<longrightarrow> n = 0))"
    by simp
  with row show ?thesis by blast
qed

theorem money_fields_rounded_integers_witness:
  "normalizeRows 2024 3 [row_sample] = Inr [txn_sample] \<and> txn_sample \<in> set [txn_sample]
   \<and> parseIntMoney (firstPresent row_sample GROSS_KEYS) = Inr 1234
   \<and> parseIntMoney (firstPresent row_sample DEDUCTIONS_KEYS) = Inr (- 500)
   \<and> parseIntMoney (firstPresent row_sample NET_KEYS) = Inr 0"
proof -
  have e: "normalizeRows 2024 3 [row_sample] = Inr [txn_sample]"
    by (simp add: normalizer_eval row_sample_def txn_sample_def)
  have m: "txn_sample \<in> set [txn_sample]" by simp
  from money_fields_rounded_integers [OF e m]
  have "parseIntMoney (firstPresent row_sample GROSS_KEYS) = Inr (gross txn_sample)
      \<and> parseIntMoney (firstPresent row_sample DEDUCTIONS_KEYS) = Inr (deductions txn_sample)
      \<and> parseIntMoney (firstPresent row_sample NET_KEYS) = Inr (net txn_sample)"
    by simp
  with e m show ?thesis by (simp add: txn_sample_def)
qed

theorem negative_amount_counterexample:
  "normalizeRows 2024 1 [JObj [(S ''bet01'', JStr (S ''-500''))]] =
     Inr [\<lparr> year = 2024, month = 1, date = S ''2024-01-01'', category = S ''UNKNOWN'', group = [],
            gross = - 500, deductions = 0, net = 0, currency = S ''KRW'', seqnr = [], fpbeg = [],
            fpend = [] \<rparr>]
   \<and> (- 500 :: int) < 0"
  by (simp add: normalizer_eval)

text \<open>
  Claim C6, amended. A money string made of digits and commas (at least one digit) whose
  value is at most \<open>2^53\<close> parses to that value, the commas being dropped wherever they stand.
  A decimal string, digits with a point, is converted to the nearest binary64 number and
  that number is rounded to the nearest integer, a tie going up; the result is at most one
  half away from the binary64 number, and 0 if that number is infinite. \<open>null\<close>,
  \<open>undefined\<close> and a string that is empty once commas and surrounding white space are
  removed give 0. Every non-numeric string gives 0: this is every string for which \<open>Number\<close>
  does not give a finite number, such as \<open>abc\<close>, \<open>--5\<close> and \<open>1.2.3\<close>, and among them every
  string holding a character that no numeric literal has.
\<close>

theorem parseIntMoney_separators_and_rounding:
  "((\<forall>c \<in> set s. isDigit c \<or> c = 44) \<and> (\<exists>c \<in> set s. isDigit c)
      \<and> digitsValue (filter (\<lambda>c. c \<noteq> 44) s) \<le> 2 ^ 53
      \<longrightarrow> parseIntMoney (JStr s) = Inr (digitsValue (filter (\<lambda>c. c \<noteq> 44) s)))
   \<and> (filter (\<lambda>c. c \<noteq> 44) s = ip @ [46] @ fp \<and> list_all isDigit ip \<and> list_all isDigit fp
        \<and> ip @ fp \<noteq> []
      \<longrightarrow> parseIntMoney (JStr s) =
            Inr (case float_round (of_int (digitsValue (ip @ fp)) / 10 ^ length fp) of
                   Fin d \<Rightarrow> Math_round d
                 | _ \<Rightarrow> 0))
   \<and> \<bar>of_int (Math_round d) - d\<bar> \<le> 1 / 2
   \<and> parseIntMoney JNull = Inr 0 \<and> parseIntMoney JUndefined = Inr 0
   \<and> (trim (filter (\<lambda>c. c \<noteq> 44) s) = [] \<longrightarrow> parseIntMoney (JStr s) = Inr 0)
   \<and> ((\<forall>q. StringToNumber (trim (filter (\<lambda>c. c \<noteq> 44) s)) \<noteq> Fin q)
        \<longrightarrow> parseIntMoney (JStr s) = Inr 0)
   \<and> ((\<exists>c \<in> set (trim (filter (\<lambda>c. c \<noteq> 44) s)). \<not> numericChar c)
        \<longrightarrow> parseIntMoney (JStr s) = Inr 0)"
proof -
  have 1: "(\<forall>c \<in> set s. isDigit c \<or> c = 44) \<and> (\<exists>c \<in> set s. isDigit c)
      \<and> digitsValue (filter (\<lambda>c. c \<noteq> 44) s) \<le> 2 ^ 53
      \<longrightarrow> parseIntMoney (JStr s) = Inr (digitsValue (filter (\<lambda>c. c \<noteq> 44) s))"
    using parseIntMoney_grouped [of s] by blast
  have 2: "parseIntMoney (JStr s) =
            Inr (case float_round (of_int (digitsValue (ip @ fp)) / 10 ^ length fp) of
                   Fin d \<Rightarrow> Math_round d
                 | _ \<Rightarrow> 0)"
    if f: "filter (\<lambda>c. c \<noteq> 44) s = ip @ [46] @ fp" and i: "list_all isDigit ip"
      and p: "list_all isDigit fp" and n: "ip @ fp \<noteq> []"
  proof -
    have hd: "isDigit (hd (ip @ [46] @ fp)) \<or> hd (ip @ [46] @ fp) = 46"
      using i by (cases ip) simp_all
    have la: "isDigit (last (ip @ [46] @ fp)) \<or> last (ip @ [46] @ fp) = 46"
      using p by (cases fp rule: rev_cases) simp_all
    have tr: "trim (ip @ [46] @ fp) = ip @ [46] @ fp"
      using hd la by (intro trim_id) (auto simp: isWhiteSpace_def isDigit_def)
    have ne: "ip @ [46] @ fp \<noteq> []" by simp
    have "parseIntMoney (JStr s) =
           Inr (if trim (filter (\<lambda>c. c \<noteq> 44) s) = [] then 0
                else (case StringToNumber (trim (filter (\<lambda>c. c \<noteq> 44) s)) of
                        Fin q \<Rightarrow> Math_round q | _ \<Rightarrow> 0))"
      by (rule parseIntMoney_text) simp_all
    then show ?thesis
      unfolding f tr StringToNumber_decimal [OF i p n] using ne by (simp only: if_False)
  qed
  have 3: "\<bar>of_int (Math_round d) - d\<bar> \<le> 1 / 2"
    using Math_round_nearest [of d] by simp
  have 4: "parseIntMoney JNull = Inr 0 \<and> parseIntMoney JUndefined = Inr 0"
    by (simp add: parseIntMoney_def)
  have 5: "trim (filter (\<lambda>c. c \<noteq> 44) s) = [] \<longrightarrow> parseIntMoney (JStr s) = Inr 0"
    by (simp add: parseIntMoney_def)
  have 6: "(\<exists>c \<in> set (trim (filter (\<lambda>c. c \<noteq> 44) s)). \<not> numericChar c)
        \<longrightarrow> parseIntMoney (JStr s) = Inr 0"
    using parseIntMoney_nonnumeric [of "JStr s" s] by simp
  have 7: "(\<forall>q. StringToNumber (trim (filter (\<lambda>c. c \<noteq> 44) s)) \<noteq> Fin q)
        \<longrightarrow> parseIntMoney (JStr s) = Inr 0"
    by (simp add: parseIntMoney_def Let_def split: jsnum.splits)
  from 1 2 3 4 5 6 7 show ?thesis by blast
qed

lemma float_round_1234_5: "float_round (2469 / 2) = Fin (2469 / 2)"
proof -
  have "round_half_even (2469 / 2 / pow2 (10 - 52)) = 5429388417957888"
    by (subst round_half_even_eqI [of 5429388417957888]) (simp_all add: pow2_def)
  then show ?thesis
    using float_round_pos [of "2469 / 2" 10]
    by (simp add: pow2_def Let_def)
qed

theorem parseIntMoney_separators_and_rounding_witness:
  "parseIntMoney (JStr (S ''1,234,567'')) = Inr 1234567
   \<and> parseIntMoney (JStr (S ''1,234.5'')) = Inr 1235
   \<and> parseIntMoney (JStr (S '' , '')) = Inr 0
   \<and> parseIntMoney (JStr (S ''12 won'')) = Inr 0
   \<and> parseIntMoney (JStr (S ''abc'')) = Inr 0
   \<and> parseIntMoney (JStr (S ''--5'')) = Inr 0
   \<and> parseIntMoney (JStr (S ''1.2.3'')) = Inr 0"
proof -
  have h1: "(\<forall>c \<in> set (S ''1,234,567''). isDigit c \<or> c = 44) \<and> (\<exists>c \<in> set (S ''1,234,567''). isDigit c)
      \<and> digitsValue (filter (\<lambda>c. c \<noteq> 44) (S ''1,234,567'')) \<le> 2 ^ 53"
    by (simp add: S_def isDigit_def digitsValue_def)
  have v1: "digitsValue (filter (\<lambda>c. c \<noteq> 44) (S ''1,234,567'')) = 1234567"
    by (simp add: S_def digitsValue_def)
  from parseIntMoney_separators_and_rounding [of "S ''1,234,567''"] h1
  have "parseIntMoney (JStr (S ''1,234,567'')) = Inr (digitsValue (filter (\<lambda>c. c \<noteq> 44) (S ''1,234,567'')))"
    by blast
  then have r1: "parseIntMoney (JStr (S ''1,234,567'')) = Inr 1234567"
    by (simp only: v1)
  have h2: "filter (\<lambda>c. c \<noteq> 44) (S ''1,234.5'') = S ''1234'' @ [46] @ S ''5''
      \<and> list_all isDigit (S ''1234'') \<and> list_all isDigit (S ''5'') \<and> S ''1234'' @ S ''5'' \<noteq> []"
    by (simp add: S_def isDigit_def)
  have v2: "(case float_round (of_int (digitsValue (S ''1234'' @ S ''5'')) / 10 ^ length (S ''5'')) of
               Fin d \<Rightarrow> Math_round d | _ \<Rightarrow> 0) = 1235"
    by (simp add: S_def digitsValue_def float_round_1234_5 Math_round_def)
  from parseIntMoney_separators_and_rounding [of "S ''1,234.5''" "S ''1234''" "S ''5''"] h2
  have "parseIntMoney (JStr (S ''1,234.5'')) =
          Inr (case float_round (of_int (digitsValue (S ''1234'' @ S ''5'')) / 10 ^ length (S ''5'')) of
                 Fin d \<Rightarrow> Math_round d | _ \<Rightarrow> 0)"
    by blast
  then have r2: "parseIntMoney (JStr (S ''1,234.5'')) = Inr 1235"
    by (simp only: v2)
  have h3: "trim (filter (\<lambda>c. c \<noteq> 44) (S '' , '')) = []"
    by (simp add: S_def trim_def isWhiteSpace_def)
  from parseIntMoney_separators_and_rounding [of "S '' , ''"] h3
  have r3: "parseIntMoney (JStr (S '' , '')) = Inr 0" by blast
  have h4: "\<exists>c \<in> set (trim (filter (\<lambda>c. c \<noteq> 44) (S ''12 won''))). \<not> numericChar c"
    by (simp add: S_def trim_def isWhiteSpace_def numericChar_def isHexDigit_def isDigit_def)
  from parseIntMoney_separators_and_rounding [of "S ''12 won''"] h4
  have r4: "parseIntMoney (JStr (S ''12 won'')) = Inr 0" by blast
  have h5: "\<forall>q. StringToNumber (trim (filter (\<lambda>c. c \<noteq> 44) (S ''abc''))) \<noteq> Fin q"
    by (simp add: normalizer_eval)
  from parseIntMoney_separators_and_rounding [of "S ''abc''"] h5
  have r5: "parseIntMoney (JStr (S ''abc'')) = Inr 0" by blast
  have h6: "\<forall>q. StringToNumber (trim (filter (\<lambda>c. c \<noteq> 44) (S ''--5''))) \<noteq> Fin q"
    by (simp add: normalizer_eval)
  from parseIntMoney_separators_and_rounding [of "S ''--5''"] h6
  have r6: "parseIntMoney (JStr (S ''--5'')) = Inr 0" by blast
  have h7: "\<forall>q. StringToNumber (trim (filter (\<lambda>c. c \<noteq> 44) (S ''1.2.3''))) \<noteq> Fin q"
    by (simp add: normalizer_eval)
  from parseIntMoney_separators_and_rounding [of "S ''1.2.3''"] h7
  have r7: "parseIntMoney (JStr (S ''1.2.3'')) = Inr 0" by blast
  from r1 r2 r3 r4 r5 r6 r7 show ?thesis by blast
qed

theorem parseIntMoney_precision_counterexample:
  "parseIntMoney (JStr (S ''9,007,199,254,740,993'')) = Inr 9007199254740992
   \<and> digitsValue (filter (\<lambda>c. c \<noteq> 44) (S ''9,007,199,254,740,993'')) = 9007199254740993"
proof -
  have f: "filter (\<lambda>c. c \<noteq> 44) (S ''9,007,199,254,740,993'') = S ''9007199254740993''"
    by (simp add: S_def)
  have d: "list_all isDigit (S ''9007199254740993'')" and n: "S ''9007199254740993'' \<noteq> []"
    by (simp_all add: S_def isDigit_def)
  have v: "digitsValue (S ''9007199254740993'') = 9007199254740993"
    by (simp add: S_def digitsValue_def)
  have "parseIntMoney (JStr (S ''9,007,199,254,740,993'')) = Inr 9007199254740992"
    using n
    by (simp add: parseIntMoney_def Let_def f trim_digits [OF d] StringToNumber_digits [OF d n] v
        float_round_2_53_plus_1)
  with f v show ?thesis by simp
qed

section \<open>The trace of a job\<close>

lemma updateJob_present:
  assumes "map_of (store w) jobId = Some j"
  shows "map_of (store (updateJob jobId p w)) jobId = Some ((assign j p) \<lparr> updatedAt := clock w \<rparr>)
       \<and> hist (updateJob jobId p w) = hist w @ [(assign j p) \<lparr> updatedAt := clock w \<rparr>]"
  using assms by (simp add: updateJob_def Let_def update_conv')

lemma good_snoc:
  assumes "good T k xs" and "xs \<noteq> []" and "processedMonths (last xs) = k" and "k \<le> k'"
    and "processedMonths j = k'" and "totalMonths j = T" and "transactions j = []"
    and "summary j = None" and "status j \<noteq> S_completed"
  shows "good T k' (xs @ [j])"
  using assms by (auto simp: good_def sorted_wrt_append)

lemma running_update:
  assumes r: "running jobId T k n w" and k: "k \<le> k'"
    and p: "p_transactions p = None" "p_summary p = None" "p_status p \<noteq> Some S_completed"
    and pm: "p_processedMonths p = None \<and> k' = k \<or> p_processedMonths p = Some k'"
    and tm: "p_totalMonths p = None \<or> p_totalMonths p = Some T"
  shows "running jobId T k' n (updateJob jobId p w)"
proof -
  from r obtain j where j: "map_of (store w) jobId = Some j" and n: "n < length (hist w)"
    and l: "last (hist w) = j" and pj: "processedMonths j = k" and g: "good T k (drop n (hist w))"
    by (auto simp: running_def)
  define j' where "j' = (assign j p) \<lparr> updatedAt := clock w \<rparr>"
  note u = updateJob_present [OF j, of p, folded j'_def]
  have ne: "drop n (hist w) \<noteq> []" using n by simp
  have lj: "last (drop n (hist w)) = j" using n l by simp
  have jin: "j \<in> set (drop n (hist w))" using ne lj last_in_set by metis
  then have jprops: "totalMonths j = T" "transactions j = []" "summary j = None"
    "status j \<noteq> S_completed"
    using g by (auto simp: good_def)
  have 1: "processedMonths j' = k'"
    using pm pj by (auto simp: j'_def assign_def)
  have 2: "totalMonths j' = T"
    using tm jprops by (auto simp: j'_def assign_def)
  have 3: "transactions j' = []" "summary j' = None"
    using p jprops by (auto simp: j'_def assign_def)
  have 4: "status j' \<noteq> S_completed"
    using p jprops by (cases "p_status p") (auto simp: j'_def assign_def)
  have "good T k' (drop n (hist w) @ [j'])"
    using g ne _ k 1 2 3 4 by (rule good_snoc) (simp add: lj pj)
  then have "good T k' (drop n (hist (updateJob jobId p w)))"
    using u n by simp
  with u n 1 show ?thesis
    by (auto simp: running_def)
qed

lemma grows_refl [simp]: "grows w w"
  by (simp add: grows_def)

lemma grows_trans: "grows w w' \<Longrightarrow> grows w' w'' \<Longrightarrow> grows w w''"
  by (auto simp: grows_def)

lemma grows_updateJob [simp]: "grows w (updateJob jobId p w)"
  by (simp add: grows_def updateJob_def Let_def split: option.splits)

lemma keeps_grows: "keeps jobId w w' \<Longrightarrow> grows w w'"
  by (simp add: keeps_def)

lemma keeps_running: "keeps jobId w w' \<Longrightarrow> running jobId T k n w \<Longrightarrow> running jobId T k n w'"
  by (simp add: keeps_def)

lemma keeps_refl [simp]: "keeps jobId w w"
  by (simp add: keeps_def)

lemma keeps_trans: "keeps jobId w w' \<Longrightarrow> keeps jobId w' w'' \<Longrightarrow> keeps jobId w w''"
  by (auto simp: keeps_def intro: grows_trans)

lemma keeps_same: "store w' = store w \<Longrightarrow> hist w' = hist w \<Longrightarrow> keeps jobId w w'"
  by (simp add: keeps_def running_def grows_def)

lemma keeps_quiet: "quiet p \<Longrightarrow> keeps jobId w (updateJob jobId p w)"
  unfolding keeps_def quiet_def
  by (intro conjI allI impI running_update grows_updateJob) auto

lemma keeps_send: "send E rq w = (r, w') \<Longrightarrow> keeps jobId w w'"
  by (rule keeps_same) (auto simp: send_def Let_def split: http_result.splits)

lemma keeps_sleep [simp]: "keeps jobId w (sleep E ms w)"
  by (rule keeps_same) (simp_all add: sleep_def)

lemma quiet_simps [simp]:
  "quiet (patch \<lparr> p_status := Some S_fetching, p_message := Some m \<rparr>)"
  "quiet (patch \<lparr> p_status := Some S_pending, p_message := Some m \<rparr>)"
  "quiet (patch \<lparr> p_status := Some S_auth_wait, p_message := Some m \<rparr>)"
  "quiet (patch \<lparr> p_message := Some m \<rparr>)"
  "quiet (patch \<lparr> p_status := Some S_error, p_message := Some m, p_error := Some e \<rparr>)"
  by (simp_all add: quiet_def patch_def)

lemma keeps_approved: "approved E jobId t html w = (c, w') \<Longrightarrow> keeps jobId w w'"
  by (auto simp: approved_def intro: keeps_quiet)

lemma keeps_pollOnce:
  assumes "pollOnce E jobId w = (c, w')"
  shows "keeps jobId w w'"
proof -
  obtain r1 w1 where s1: "send E initPageRequest w = (r1, w1)"
    by (cases "send E initPageRequest w")
  note k1 = keeps_send [OF s1, of jobId]
  show ?thesis
  proof (cases r1)
    case (Inl e)
    with assms s1 k1 show ?thesis
      by (cases e) (simp add: pollOnce_def)
  next
    case r1: (Inr initResp)
    show ?thesis
    proof (cases "truthy (extractMetaCsrf E (body initResp))")
      case (Some t)
      with assms s1 r1 have "approved E jobId t (body initResp) w1 = (c, w')"
        by (simp add: pollOnce_def)
      from keeps_approved [OF this] k1 show ?thesis by (rule keeps_trans [rotated])
    next
      case n1: None
      obtain r2 w2 where s2: "send E noticeRequest w1 = (r2, w2)"
        by (cases "send E noticeRequest w1")
      note k2 = keeps_trans [OF k1 keeps_send [OF s2, of jobId]]
      show ?thesis
      proof (cases r2)
        case (Inl e)
        with assms s1 r1 n1 s2 k2 show ?thesis
          by (cases e) (simp add: pollOnce_def)
      next
        case r2: (Inr noticeResp)
        show ?thesis
        proof (cases "truthy (extractMetaCsrf E (body noticeResp))")
          case (Some t)
          with assms s1 r1 n1 s2 r2 have "approved E jobId t (body noticeResp) w2 = (c, w')"
            by (simp add: pollOnce_def)
          from keeps_approved [OF this] k2 show ?thesis by (rule keeps_trans [rotated])
        next
          case n2: None
          obtain r3 w3 where s3: "send E successRequest w2 = (r3, w3)"
            by (cases "send E successRequest w2")
          note k3 = keeps_trans [OF k2 keeps_send [OF s3, of jobId]]
          show ?thesis
          proof (cases r3)
            case (Inl e)
            with assms s1 r1 n1 s2 r2 n2 s3 k3 show ?thesis
              by (cases e) (simp add: pollOnce_def)
          next
            case r3: (Inr successResp)
            show ?thesis
            proof (cases "truthy (extractMetaCsrf E (body successResp))")
              case (Some t)
              with assms s1 r1 n1 s2 r2 n2 s3 r3
              have "approved E jobId t (body successResp) w3 = (c, w')"
                by (simp add: pollOnce_def)
              from keeps_approved [OF this] k3 show ?thesis by (rule keeps_trans [rotated])
            next
              case None
              with assms s1 r1 n1 s2 r2 n2 s3 r3 k3 show ?thesis
                by (simp add: pollOnce_def)
            qed
          qed
        qed
      qed
    qed
  qed
qed

lemma keeps_waitForFido_loop:
  "waitForFido_loop E params jobId deadline lastError w = (r, w') \<Longrightarrow> keeps jobId w w'"
proof (induction E params jobId deadline lastError w rule: waitForFido_loop.induct)
  case (1 E params jobId deadline lastError w)
  show ?case
  proof (cases "clock w < deadline")
    case False
    with "1.prems" show ?thesis by (simp add: waitForFido_loop.simps)
  next
    case True
    obtain c w1 where c: "pollOnce E jobId w = (c, w1)" by (cases "pollOnce E jobId w")
    from keeps_pollOnce [OF c] have k1: "keeps jobId w w1" .
    show ?thesis
    proof (cases c)
      case (Token t h)
      with "1.prems" True c k1 show ?thesis by (simp add: waitForFido_loop.simps)
    next
      case (NoToken le)
      with "1.prems" True c
      have "waitForFido_loop E params jobId deadline le
              (sleep E (max 500 (pollIntervalSeconds params * 1000)) w1) = (r, w')"
        by (simp add: waitForFido_loop.simps)
      from "1.IH" [OF True c [symmetric] NoToken this]
      have "keeps jobId (sleep E (max 500 (pollIntervalSeconds params * 1000)) w1) w'" .
      with k1 show ?thesis by (blast intro: keeps_trans keeps_sleep)
    qed
  qed
qed

lemma keeps_postLoginProcess: "postLoginProcess E csrf params w = (r, w') \<Longrightarrow> keeps jobId w w'"
  by (auto simp: postLoginProcess_def split: prod.splits sum.splits if_splits
           dest: keeps_send [where jobId = jobId])

lemma keeps_fetchLatestCsrf:
  assumes "fetchLatestCsrf E jobId w = (r, w')"
  shows "keeps jobId w w'"
proof -
  obtain r1 w1 where s1: "send E initPageRequest w = (r1, w1)"
    by (cases "send E initPageRequest w")
  note k1 = keeps_send [OF s1, of jobId]
  have k2: "keeps jobId w1 (updateJob jobId (patch \<lparr> p_message := Some MSG_REFRESHED \<rparr>) w1)"
    by (rule keeps_quiet) simp
  from assms s1 have "w' = w1 \<or> w' = updateJob jobId (patch \<lparr> p_message := Some MSG_REFRESHED \<rparr>) w1"
    by (auto simp: fetchLatestCsrf_def split: sum.splits option.splits prod.splits)
  with k1 k2 show ?thesis by (auto intro: keeps_trans)
qed

lemma keeps_fetchPeriod:
  assumes "fetchPeriod E jobId params csrfToken headerName yr mo w = (r, w')"
  shows "keeps jobId w w'"
proof -
  obtain r1 w1 where s1: "send E (detailRequest params yr mo csrfToken headerName) w = (r1, w1)"
    by (cases "send E (detailRequest params yr mo csrfToken headerName) w")
  note k1 = keeps_send [OF s1, of jobId]
  show ?thesis
  proof (cases r1)
    case (Inl e)
    with assms s1 k1 show ?thesis by (simp add: fetchPeriod_def)
  next
    case r1: (Inr resp)
    show ?thesis
    proof (cases "isHtml (body resp)")
      case False
      with assms s1 r1 k1 show ?thesis by (simp add: fetchPeriod_def)
    next
      case True
      obtain r2 w2 where s2: "fetchLatestCsrf E jobId w1 = (r2, w2)"
        by (cases "fetchLatestCsrf E jobId w1")
      note k2 = keeps_trans [OF k1 keeps_fetchLatestCsrf [OF s2]]
      show ?thesis
      proof (cases r2)
        case (Inl e)
        with assms s1 r1 True s2 k2 show ?thesis by (simp add: fetchPeriod_def)
      next
        case (Inr th)
        obtain token refreshedName where th: "th = (token, refreshedName)" by (cases th)
        obtain r3 w3 where s3: "send E (detailRequest params yr mo token refreshedName) w2 = (r3, w3)"
          by (cases "send E (detailRequest params yr mo token refreshedName) w2")
        note k3 = keeps_trans [OF k2 keeps_send [OF s3, of jobId]]
        from assms s1 r1 True s2 Inr th s3 have "w' = w3"
          by (cases r3) (auto simp: fetchPeriod_def split: if_splits)
        with k3 show ?thesis by simp
      qed
    qed
  qed
qed

lemma running_sleep [simp]: "running jobId T k n (sleep E ms w) = running jobId T k n w"
  by (simp add: running_def sleep_def)

lemma grows_sleep [simp]: "grows w (sleep E ms w') = grows w w'"
  by (simp add: grows_def sleep_def)

lemma running_periodStep:
  assumes "running jobId T k n w"
    and "periodStep E jobId params csrfToken headerName T yr mo (all, k, w) = (all', k', w')"
  shows "k' = Suc k \<and> running jobId T (Suc k) n w' \<and> grows w w'"
proof -
  define w1 where "w1 = updateJob jobId
                     (patch \<lparr> p_processedMonths := Some (Suc k), p_totalMonths := Some T,
                              p_message := Some (MSG_PROGRESS @ progressText (Suc k) T yr mo) \<rparr>) w"
  have r1: "running jobId T (Suc k) n w1"
    unfolding w1_def using assms(1) by (rule running_update) (simp_all add: patch_def)
  have g1: "grows w w1" by (simp add: w1_def)
  obtain r w2 where f: "fetchPeriod E jobId params csrfToken headerName yr mo w1 = (r, w2)"
    by (cases "fetchPeriod E jobId params csrfToken headerName yr mo w1")
  note k2 = keeps_fetchPeriod [OF f]
  have r2: "running jobId T (Suc k) n w2" using k2 r1 by (rule keeps_running)
  have g2: "grows w w2" using g1 keeps_grows [OF k2] by (rule grows_trans)
  show ?thesis
  proof (cases r)
    case (Inr txns)
    with assms(2) f have "k' = Suc k" and "w' = sleep E 200 w2"
      by (auto simp: periodStep_def Let_def w1_def)
    with r2 g2 show ?thesis by simp
  next
    case (Inl e)
    obtain msg where e: "e = Error msg" by (cases e)
    define w3 where "w3 = updateJob jobId
                        (patch \<lparr> p_message :=
                                   Some (MSG_PERIOD_ERROR @ progressText (Suc k) T yr mo
                                         @ S '': '' @ msg) \<rparr>) w2"
    have k3: "keeps jobId w2 w3" unfolding w3_def by (rule keeps_quiet) simp
    from assms(2) f Inl e have "k' = Suc k" and "w' = sleep E 200 w3"
      by (auto simp: periodStep_def Let_def w1_def w3_def)
    moreover have "running jobId T (Suc k) n (sleep E 200 w3)"
      using keeps_running [OF k3 r2] by simp
    moreover have "grows w (sleep E 200 w3)"
      using grows_trans [OF g2 keeps_grows [OF k3]] by simp
    ultimately show ?thesis by simp
  qed
qed

lemma running_monthsLoop:
  "running jobId T k n w \<Longrightarrow>
   monthsLoop E jobId params csrfToken headerName T yr ms (all, k, w) = (all', k', w') \<Longrightarrow>
   k' = k + length ms \<and> running jobId T k' n w' \<and> grows w w'"
proof (induction ms arbitrary: all k w)
  case Nil
  then show ?case by simp
next
  case (Cons mo ms)
  obtain a1 k1 w1 where p: "periodStep E jobId params csrfToken headerName T yr mo (all, k, w) = (a1, k1, w1)"
    by (cases "periodStep E jobId params csrfToken headerName T yr mo (all, k, w)")
  from running_periodStep [OF Cons.prems(1) p]
  have k1: "k1 = Suc k" and r1: "running jobId T (Suc k) n w1" and g1: "grows w w1" by simp_all
  from Cons.prems(2) p k1
  have "monthsLoop E jobId params csrfToken headerName T yr ms (a1, Suc k, w1) = (all', k', w')"
    by simp
  from Cons.IH [OF r1 this] g1 show ?case by (auto intro: grows_trans)
qed

lemma running_yearsLoop:
  "running jobId T k n w \<Longrightarrow>
   yearsLoop E jobId params csrfToken headerName T ys (all, k, w) = (all', k', w') \<Longrightarrow>
   k' = k + length ys * length (months params) \<and> running jobId T k' n w' \<and> grows w w'"
proof (induction ys arbitrary: all k w)
  case Nil
  then show ?case by simp
next
  case (Cons yr ys)
  obtain a1 k1 w1 where
    m: "monthsLoop E jobId params csrfToken headerName T yr (months params) (all, k, w) = (a1, k1, w1)"
    by (cases "monthsLoop E jobId params csrfToken headerName T yr (months params) (all, k, w)")
  from running_monthsLoop [OF Cons.prems(1) m]
  have k1: "k1 = k + length (months params)" and r1: "running jobId T k1 n w1" and g1: "grows w w1"
    by blast+
  from Cons.prems(2) m
  have "yearsLoop E jobId params csrfToken headerName T ys (a1, k1, w1) = (all', k', w')"
    by simp
  from Cons.IH [OF r1 this] g1 k1 show ?case by (auto intro: grows_trans)
qed

lemma running_present:
  "running jobId T k n w \<Longrightarrow> map_of (store w) jobId = Some (last (hist w)) \<and> n < length (hist w)"
  by (auto simp: running_def)

lemma failJob_trace:
  assumes r: "running jobId T k n w" and k: "k \<le> T"
  shows "trace_ok (drop n (hist (failJob jobId e w))) \<and> grows w (failJob jobId e w)
         \<and> map_of (store (failJob jobId e w)) jobId = Some (last (hist (failJob jobId e w)))"
proof -
  obtain msg where e: "e = Error msg" by (cases e)
  define p where "p = patch \<lparr> p_status := Some S_error, p_message := Some (MSG_JOB_FAILED @ msg),
                     p_error := Some msg \<rparr>"
  have f: "failJob jobId e w = updateJob jobId p w" by (simp add: failJob_def e p_def)
  have q: "quiet p" by (simp add: p_def)
  from keeps_running [OF keeps_quiet [OF q] r] have r': "running jobId T k n (updateJob jobId p w)" .
  then obtain j where j: "map_of (store (updateJob jobId p w)) jobId = Some j"
    and n: "n < length (hist (updateJob jobId p w))" and l: "last (hist (updateJob jobId p w)) = j"
    and g: "good T k (drop n (hist (updateJob jobId p w)))"
    by (auto simp: running_def)
  from running_present [OF r] have j0: "map_of (store w) jobId = Some (last (hist w))" by simp
  from updateJob_present [OF j0, of p] l
  have st: "status j = S_error"
    by (auto simp: assign_def p_def patch_def)
  define xs where "xs = drop n (hist (updateJob jobId p w))"
  have ne: "xs \<noteq> []" using n by (simp add: xs_def)
  have lx: "last xs = j" using n l by (simp add: xs_def)
  have jx: "j \<in> set xs" using ne lx last_in_set by metis
  have "trace_ok xs"
    unfolding trace_ok_def
  proof (intro conjI)
    show "xs \<noteq> []" by (rule ne)
    show "sorted_wrt (\<lambda>a b. processedMonths a \<le> processedMonths b) xs"
      using g by (simp add: good_def xs_def)
    show "\<forall>x \<in> set xs. processedMonths x \<le> totalMonths x"
      using g k by (auto simp: good_def xs_def)
    show "\<forall>x \<in> set (butlast xs). status x \<noteq> S_completed \<and> transactions x = [] \<and> summary x = None"
      using g by (auto simp: good_def xs_def dest: in_set_butlastD)
    show "status (last xs) = S_completed
            \<and> summary (last xs) = Some (computeSummary (transactions (last xs)))
            \<and> processedMonths (last xs) = totalMonths (last xs)
          \<or> status (last xs) = S_error \<and> transactions (last xs) = [] \<and> summary (last xs) = None"
      using g jx st by (auto simp: good_def xs_def [symmetric] lx)
  qed
  with j l show ?thesis by (simp add: f xs_def)
qed

lemma complete_trace:
  assumes r: "running jobId T T n w"
  shows "trace_ok (drop n (hist (updateJob jobId
            (patch \<lparr> p_status := Some S_completed, p_message := Some m, p_transactions := Some all,
                     p_summary := Some (computeSummary all), p_processedMonths := Some T,
                     p_totalMonths := Some T \<rparr>) w)))
         \<and> map_of (store (updateJob jobId
            (patch \<lparr> p_status := Some S_completed, p_message := Some m, p_transactions := Some all,
                     p_summary := Some (computeSummary all), p_processedMonths := Some T,
                     p_totalMonths := Some T \<rparr>) w)) jobId
           = Some (last (hist (updateJob jobId
            (patch \<lparr> p_status := Some S_completed, p_message := Some m, p_transactions := Some all,
                     p_summary := Some (computeSummary all), p_processedMonths := Some T,
                     p_totalMonths := Some T \<rparr>) w)))"
proof -
  define p where "p = patch \<lparr> p_status := Some S_completed, p_message := Some m,
                     p_transactions := Some all, p_summary := Some (computeSummary all),
                     p_processedMonths := Some T, p_totalMonths := Some T \<rparr>"
  from r obtain j where j: "map_of (store w) jobId = Some j" and n: "n < length (hist w)"
    and g: "good T T (drop n (hist w))"
    by (auto simp: running_def)
  define j' where "j' = (assign j p) \<lparr> updatedAt := clock w \<rparr>"
  note u = updateJob_present [OF j, of p, folded j'_def]
  have props: "status j' = S_completed" "transactions j' = all"
    "summary j' = Some (computeSummary all)" "processedMonths j' = T" "totalMonths j' = T"
    by (simp_all add: j'_def assign_def p_def patch_def)
  define ys where "ys = drop n (hist w)"
  have d: "drop n (hist (updateJob jobId p w)) = ys @ [j']"
    using u n by (simp add: ys_def)
  have "trace_ok (ys @ [j'])"
    unfolding trace_ok_def
  proof (intro conjI)
    show "ys @ [j'] \<noteq> []" by simp
    show "sorted_wrt (\<lambda>a b. processedMonths a \<le> processedMonths b) (ys @ [j'])"
      using g props by (auto simp: good_def ys_def sorted_wrt_append)
    show "\<forall>x \<in> set (ys @ [j']). processedMonths x \<le> totalMonths x"
      using g props by (auto simp: good_def ys_def)
    show "\<forall>x \<in> set (butlast (ys @ [j'])). status x \<noteq> S_completed \<and> transactions x = []
            \<and> summary x = None"
      using g by (auto simp: good_def ys_def)
    show "status (last (ys @ [j'])) = S_completed
            \<and> summary (last (ys @ [j'])) = Some (computeSummary (transactions (last (ys @ [j']))))
            \<and> processedMonths (last (ys @ [j'])) = totalMonths (last (ys @ [j']))
          \<or> status (last (ys @ [j'])) = S_error \<and> transactions (last (ys @ [j'])) = []
            \<and> summary (last (ys @ [j'])) = None"
      using props by simp
  qed
  with d u show ?thesis by (simp add: p_def)
qed

lemma collect_and_complete_trace:
  assumes r: "running jobId T 0 n w" and T: "T = length (years params) * length (months params)"
  shows "trace_ok (drop n (hist (collect_and_complete E jobId params csrfToken headerName w)))
         \<and> grows w (collect_and_complete E jobId params csrfToken headerName w)
         \<and> map_of (store (collect_and_complete E jobId params csrfToken headerName w)) jobId
             = Some (last (hist (collect_and_complete E jobId params csrfToken headerName w)))"
proof -
  obtain all k w' where
    y: "yearsLoop E jobId params csrfToken headerName T (years params) ([], 0, w) = (all, k, w')"
    by (cases "yearsLoop E jobId params csrfToken headerName T (years params) ([], 0, w)")
  from running_yearsLoop [OF r y] T have k: "k = T" and rk: "running jobId T k n w'"
    and g: "grows w w'" by auto
  from rk k have r': "running jobId T T n w'" by simp
  have c: "collect_and_complete E jobId params csrfToken headerName w =
           updateJob jobId
             (patch \<lparr> p_status := Some S_completed,
                      p_message := Some (MSG_DONE_1 @ NumberToString (int (sum_count (computeSummary all)))
                                         @ MSG_DONE_2),
                      p_transactions := Some all, p_summary := Some (computeSummary all),
                      p_processedMonths := Some T, p_totalMonths := Some T \<rparr>) w'"
    using y by (simp add: collect_and_complete_def Let_def T)
  show ?thesis
    unfolding c using complete_trace [OF r'] g
    by (auto intro: grows_trans grows_updateJob)
qed

lemma keeps_waitForFido: "waitForFido E params jobId w = (r, w') \<Longrightarrow> keeps jobId w w'"
  by (auto simp: waitForFido_def Let_def dest: keeps_waitForFido_loop)

lemma processJob_trace:
  assumes r: "running jobId T 0 n w" and T: "T = length (years params) * length (months params)"
  shows "trace_ok (drop n (hist (processJob E jobId params w)))
         \<and> grows w (processJob E jobId params w)
         \<and> map_of (store (processJob E jobId params w)) jobId
             = Some (last (hist (processJob E jobId params w)))"
proof -
  define w0 where "w0 = processJob_begin jobId w"
  have k0: "keeps jobId w w0"
    unfolding w0_def processJob_begin_def by (rule keeps_quiet) simp
  obtain r1 w1 where s1: "send E loginPageRequest w0 = (r1, w1)"
    by (cases "send E loginPageRequest w0")
  note k1 = keeps_trans [OF k0 keeps_send [OF s1, of jobId]]
  have fail: "trace_ok (drop n (hist (failJob jobId e w')))
         \<and> grows w (failJob jobId e w')
         \<and> map_of (store (failJob jobId e w')) jobId = Some (last (hist (failJob jobId e w')))"
    if "keeps jobId w w'" for e w'
    using failJob_trace [OF keeps_running [OF that r], of e] keeps_grows [OF that]
    by (auto intro: grows_trans)
  show ?thesis
  proof (cases r1)
    case (Inl e)
    with s1 have "processJob E jobId params w = failJob jobId e w1"
      by (simp add: processJob_def Let_def w0_def)
    with fail [OF k1] show ?thesis by simp
  next
    case r1: (Inr loginResp)
    show ?thesis
    proof (cases "truthy (extractMetaCsrf E (body loginResp))")
      case None
      with s1 r1 have "processJob E jobId params w = failJob jobId (Error MSG_NO_LOGIN_TOKEN) w1"
        by (simp add: processJob_def Let_def w0_def)
      with fail [OF k1] show ?thesis by simp
    next
      case (Some initialCsrf)
      define w2 where "w2 = updateJob jobId
                              (patch \<lparr> p_status := Some S_auth_wait,
                                       p_message := Some MSG_AUTH_WAIT \<rparr>) w1"
      have "keeps jobId w1 w2" unfolding w2_def by (rule keeps_quiet) simp
      note k2 = keeps_trans [OF k1 this]
      obtain r3 w3 where s3: "postLoginProcess E initialCsrf params w2 = (r3, w3)"
        by (cases "postLoginProcess E initialCsrf params w2")
      note k3 = keeps_trans [OF k2 keeps_postLoginProcess [OF s3]]
      show ?thesis
      proof (cases r3)
        case (Inl e)
        with s1 r1 Some s3 have "processJob E jobId params w = failJob jobId e w3"
          by (simp add: processJob_def Let_def w0_def w2_def)
        with fail [OF k3] show ?thesis by simp
      next
        case r3: (Inr u)
        obtain r4 w4 where s4: "waitForFido E params jobId w3 = (r4, w4)"
          by (cases "waitForFido E params jobId w3")
        note k4 = keeps_trans [OF k3 keeps_waitForFido [OF s4]]
        show ?thesis
        proof (cases r4)
          case (Inl e)
          with s1 r1 Some s3 r3 s4 have "processJob E jobId params w = failJob jobId e w4"
            by (simp add: processJob_def Let_def w0_def w2_def)
          with fail [OF k4] show ?thesis by simp
        next
          case (Inr th)
          obtain csrfToken headerName where th: "th = (csrfToken, headerName)" by (cases th)
          with s1 r1 Some s3 r3 s4 Inr
          have "processJob E jobId params w = collect_and_complete E jobId params csrfToken headerName w4"
            by (simp add: processJob_def Let_def w0_def w2_def)
          with collect_and_complete_trace [OF keeps_running [OF k4 r] T, of E csrfToken headerName]
            keeps_grows [OF k4]
          show ?thesis by (auto intro: grows_trans)
        qed
      qed
    qed
  qed
qed

lemma startPayrollJob_trace:
  assumes "startPayrollJob E jobId params w = (snap, w')"
  shows "trace_ok (drop (length (hist w)) (hist w'))
         \<and> hd (drop (length (hist w)) (hist w'))
             = \<lparr> job_id = jobId, status = S_pending, message = MSG_PREPARING,
                 totalMonths = length (years params) * length (months params),
                 processedMonths = 0, transactions = [], summary = None, error = None,
                 createdAt = clock w, updatedAt = clock w \<rparr>
         \<and> map_of (store w') jobId = Some (last (hist w'))"
proof -
  define T where "T = length (years params) * length (months params)"
  define state where "state = \<lparr> job_id = jobId, status = S_pending, message = MSG_PREPARING,
                 totalMonths = T, processedMonths = 0, transactions = [], summary = None,
                 error = None, createdAt = clock w, updatedAt = clock w \<rparr>"
  define w1 where "w1 = w \<lparr> store := AList.update jobId state (store w), hist := hist w @ [state] \<rparr>"
  have w': "w' = processJob E jobId params w1"
    using assms by (simp add: startPayrollJob_def Let_def w1_def state_def T_def)
  have r: "running jobId T 0 (length (hist w)) w1"
    by (simp add: running_def w1_def update_conv' good_def state_def)
  from processJob_trace [OF r T_def, of E]
  have t: "trace_ok (drop (length (hist w)) (hist w'))" and g: "grows w1 w'"
    and m: "map_of (store w') jobId = Some (last (hist w'))"
    by (simp_all add: w')
  from g obtain zs where "hist w' = (hist w @ [state]) @ zs"
    by (auto simp: grows_def w1_def)
  then have "hd (drop (length (hist w)) (hist w')) = state" by simp
  with t m show ?thesis by (simp add: state_def T_def)
qed

lemmas job_eval =
  startPayrollJob_def processJob_def processJob_begin_def send_def updateJob_def assign_def
  patch_def failJob_def sleep_def waitForFido_def waitForFido_loop.simps pollOnce_def approved_def
  extractMetaCsrf_def extractMetaCsrfAndHeader_def truthy_def headerOr_def postLoginProcess_def
  looksLikeLoginFailure_def collapseSpace.simps gapMatch_def includesStr_def startsWith_def
  KO_LOGIN_def KO_FAILURE_def KO_ID_def KO_CHECK_def KO_PASSWORD_def KO_AGAIN_def KO_MATCH_def
  KO_INCORRECT_def collect_and_complete_def periodStep_def fetchPeriod_def fetchLatestCsrf_def
  isHtml_def toLowerCase_def payDetailsOf_def optChain_def normalizeRowsOf_def computeSummary_def
  initPageRequest_def noticeRequest_def successRequest_def loginPageRequest_def loginRequest_def
  detailRequest_def buildHeaders_def buildBody_def progressText_def

lemma run_sample:
  "map (\<lambda>j. (status j, processedMonths j, totalMonths j, transactions j))
     (hist (snd (startPayrollJob E_sample (S ''job'') P_sample W_sample)))
   = [(S_pending, 0, 2, []), (S_pending, 0, 2, []), (S_auth_wait, 0, 2, []), (S_fetching, 0, 2, []),
      (S_fetching, 1, 2, []), (S_fetching, 1, 2, []), (S_fetching, 2, 2, []), (S_fetching, 2, 2, []),
      (S_completed, 2, 2,
       [\<lparr> year = 2024, month = 1, date = S ''2024-01-01'', category = S ''UNKNOWN'', group = [],
          gross = 1000, deductions = 0, net = 0, currency = S ''KRW'', seqnr = [], fpbeg = [],
          fpend = [] \<rparr>])]"
  by (simp add: job_eval normalizer_eval E_sample_def P_sample_def W_sample_def payload_sample_def)

text \<open>
  Claim C4. Take the states that the record of a job goes through, from the one that
  \<open>startPayrollJob\<close> creates to the last one that \<open>processJob\<close> writes. The first has
  \<open>processedMonths = 0\<close>; along the sequence \<open>processedMonths\<close> never decreases; in every state
  it is at most \<open>totalMonths\<close>; the last state is completed or failed, and it is the one the
  store holds. A snapshot reports the two counts of the state it is taken from.
\<close>

theorem processedMonths_monotone_bounded:
  assumes "startPayrollJob E jobId params w = (snap, w')"
    and "xs = drop (length (hist w)) (hist w')"
  shows "xs \<noteq> [] \<and> processedMonths (hd xs) = 0
         \<and> totalMonths (hd xs) = length (years params) * length (months params)
         \<and> sorted_wrt (\<lambda>a b. processedMonths a \<le> processedMonths b) xs
         \<and> (\<forall>x \<in> set xs. processedMonths x \<le> totalMonths x)
         \<and> (status (last xs) = S_completed \<or> status (last xs) = S_error)
         \<and> map_of (store w') jobId = Some (last xs)
         \<and> (\<forall>x \<in> set xs. \<exists>s. toSnapshot (Some x) = Some s
                \<and> snap_processedMonths s = processedMonths x \<and> snap_totalMonths s = totalMonths x)"
proof -
  from startPayrollJob_trace [OF assms(1)]
  have t: "trace_ok xs"
    and h: "hd xs = \<lparr> job_id = jobId, status = S_pending, message = MSG_PREPARING,
                 totalMonths = length (years params) * length (months params),
                 processedMonths = 0, transactions = [], summary = None, error = None,
                 createdAt = clock w, updatedAt = clock w \<rparr>"
    and m: "map_of (store w') jobId = Some (last (hist w'))"
    by (simp_all add: assms(2))
  from t have ne: "xs \<noteq> []" by (simp add: trace_ok_def)
  then have "last (hist w') = last xs" by (auto simp: assms(2))
  with m have m': "map_of (store w') jobId = Some (last xs)" by simp
  have s: "\<forall>x \<in> set xs. \<exists>s. toSnapshot (Some x) = Some s
                \<and> snap_processedMonths s = processedMonths x \<and> snap_totalMonths s = totalMonths x"
    by (simp add: toSnapshot_def)
  from t h m' s show ?thesis
    unfolding trace_ok_def by auto
qed

theorem processedMonths_monotone_bounded_witness:
  "map processedMonths
     (drop (length (hist W_sample))
        (hist (snd (startPayrollJob E_sample (S ''job'') P_sample W_sample))))
     = [0, 0, 0, 0, 1, 1, 2, 2, 2]
   \<and> map totalMonths
       (drop (length (hist W_sample))
          (hist (snd (startPayrollJob E_sample (S ''job'') P_sample W_sample))))
     = [2, 2, 2, 2, 2, 2, 2, 2, 2]
   \<and> sorted_wrt (\<lambda>a b. processedMonths a \<le> processedMonths b)
       (drop (length (hist W_sample))
          (hist (snd (startPayrollJob E_sample (S ''job'') P_sample W_sample))))"
proof -
  have 0: "length (hist W_sample) = 0" by (simp add: W_sample_def)
  from arg_cong [OF run_sample, of "map (\<lambda>q. fst (snd q))"]
  have 1: "map processedMonths
     (drop (length (hist W_sample))
        (hist (snd (startPayrollJob E_sample (S ''job'') P_sample W_sample))))
     = [0, 0, 0, 0, 1, 1, 2, 2, 2]"
    by (simp add: 0 comp_def)
  from arg_cong [OF run_sample, of "map (\<lambda>q. fst (snd (snd q)))"]
  have 2: "map totalMonths
       (drop (length (hist W_sample))
          (hist (snd (startPayrollJob E_sample (S ''job'') P_sample W_sample))))
     = [2, 2, 2, 2, 2, 2, 2, 2, 2]"
    by (simp add: 0 comp_def)
  from processedMonths_monotone_bounded
         [of E_sample "S ''job''" P_sample W_sample
             "fst (startPayrollJob E_sample (S ''job'') P_sample W_sample)"
             "snd (startPayrollJob E_sample (S ''job'') P_sample W_sample)", OF _ refl]
  have 3: "sorted_wrt (\<lambda>a b. processedMonths a \<le> processedMonths b)
       (drop (length (hist W_sample))
          (hist (snd (startPayrollJob E_sample (S ''job'') P_sample W_sample))))"
    by simp
  from 1 2 3 show ?thesis by blast
qed

lemma sum_count_computeSummary: "sum_count (computeSummary txns) = length txns"
proof -
  have "\<And>acc. sum_count (foldl (\<lambda>acc txn.
              \<lparr> sum_gross = js_add (sum_gross acc) (Fin (of_int (gross txn))),
                sum_deductions = js_add (sum_deductions acc) (Fin (of_int (deductions txn))),
                sum_net = js_add (sum_net acc) (Fin (of_int (net txn))),
                sum_count = sum_count acc + 1 \<rparr>) acc txns) = sum_count acc + length txns"
    by (induction txns) simp_all
  then show ?thesis by (simp add: computeSummary_def)
qed

lemma failJob_status:
  assumes "running jobId T k n w"
  shows "status (last (hist (failJob jobId e w))) = S_error"
proof -
  obtain msg where e: "e = Error msg" by (cases e)
  from running_present [OF assms] have p: "map_of (store w) jobId = Some (last (hist w))" by simp
  from updateJob_present [OF p] show ?thesis
    by (simp add: failJob_def e assign_def patch_def)
qed

lemma collect_and_complete_transactions:
  assumes r: "running jobId T 0 n w" and T: "T = length (years params) * length (months params)"
  shows "transactions (last (hist (collect_and_complete E jobId params csrfToken headerName w)))
           = fst (yearsLoop E jobId params csrfToken headerName T (years params) ([], 0, w))"
proof -
  obtain all k w' where
    y: "yearsLoop E jobId params csrfToken headerName T (years params) ([], 0, w) = (all, k, w')"
    by (cases "yearsLoop E jobId params csrfToken headerName T (years params) ([], 0, w)")
  from running_yearsLoop [OF r y] have rk: "running jobId T k n w'" by auto
  from running_present [OF rk] have p: "map_of (store w') jobId = Some (last (hist w'))" by simp
  have c: "collect_and_complete E jobId params csrfToken headerName w =
           updateJob jobId
             (patch \<lparr> p_status := Some S_completed,
                      p_message := Some (MSG_DONE_1 @ NumberToString (int (sum_count (computeSummary all)))
                                         @ MSG_DONE_2),
                      p_transactions := Some all, p_summary := Some (computeSummary all),
                      p_processedMonths := Some T, p_totalMonths := Some T \<rparr>) w'"
    using y by (simp add: collect_and_complete_def Let_def T)
  from updateJob_present [OF p] show ?thesis
    unfolding c by (simp add: y assign_def patch_def)
qed

lemma processJob_completed:
  assumes r: "running jobId T 0 n w" and T: "T = length (years params) * length (months params)"
  shows "status (last (hist (processJob E jobId params w))) = S_completed \<longrightarrow>
           (\<exists>w3 tok hn w4. waitForFido E params jobId w3 = (Inr (tok, hn), w4)
              \<and> transactions (last (hist (processJob E jobId params w)))
                  = fst (yearsLoop E jobId params tok hn T (years params) ([], 0, w4)))"
proof -
  define w0 where "w0 = processJob_begin jobId w"
  have k0: "keeps jobId w w0"
    unfolding w0_def processJob_begin_def by (rule keeps_quiet) simp
  obtain r1 w1 where s1: "send E loginPageRequest w0 = (r1, w1)"
    by (cases "send E loginPageRequest w0")
  note k1 = keeps_trans [OF k0 keeps_send [OF s1, of jobId]]
  have fail: "status (last (hist (failJob jobId e w'))) \<noteq> S_completed"
    if "keeps jobId w w'" for e w'
    using failJob_status [OF keeps_running [OF that r], of e] by simp
  show ?thesis
  proof (cases r1)
    case (Inl e)
    with s1 have "processJob E jobId params w = failJob jobId e w1"
      by (simp add: processJob_def Let_def w0_def)
    with fail [OF k1] show ?thesis by simp
  next
    case r1: (Inr loginResp)
    show ?thesis
    proof (cases "truthy (extractMetaCsrf E (body loginResp))")
      case None
      with s1 r1 have "processJob E jobId params w = failJob jobId (Error MSG_NO_LOGIN_TOKEN) w1"
        by (simp add: processJob_def Let_def w0_def)
      with fail [OF k1] show ?thesis by simp
    next
      case (Some initialCsrf)
      define w2 where "w2 = updateJob jobId
                              (patch \<lparr> p_status := Some S_auth_wait,
                                       p_message := Some MSG_AUTH_WAIT \<rparr>) w1"
      have "keeps jobId w1 w2" unfolding w2_def by (rule keeps_quiet) simp
      note k2 = keeps_trans [OF k1 this]
      obtain r3 w3 where s3: "postLoginProcess E initialCsrf params w2 = (r3, w3)"
        by (cases "postLoginProcess E initialCsrf params w2")
      note k3 = keeps_trans [OF k2 keeps_postLoginProcess [OF s3]]
      show ?thesis
      proof (cases r3)
        case (Inl e)
        with s1 r1 Some s3 have "processJob E jobId params w = failJob jobId e w3"
          by (simp add: processJob_def Let_def w0_def w2_def)
        with fail [OF k3] show ?thesis by simp
      next
        case r3: (Inr u)
        obtain r4 w4 where s4: "waitForFido E params jobId w3 = (r4, w4)"
          by (cases "waitForFido E params jobId w3")
        note k4 = keeps_trans [OF k3 keeps_waitForFido [OF s4]]
        show ?thesis
        proof (cases r4)
          case (Inl e)
          with s1 r1 Some s3 r3 s4 have "processJob E jobId params w = failJob jobId e w4"
            by (simp add: processJob_def Let_def w0_def w2_def)
          with fail [OF k4] show ?thesis by simp
        next
          case (Inr th)
          obtain csrfToken headerName where th: "th = (csrfToken, headerName)" by (cases th)
          with s1 r1 Some s3 r3 s4 Inr
          have "processJob E jobId params w = collect_and_complete E jobId params csrfToken headerName w4"
            by (simp add: processJob_def Let_def w0_def w2_def)
          with collect_and_complete_transactions [OF keeps_running [OF k4 r] T, of E csrfToken headerName]
          have "transactions (last (hist (processJob E jobId params w)))
                  = fst (yearsLoop E jobId params csrfToken headerName T (years params) ([], 0, w4))"
            by simp
          with s4 Inr th show ?thesis by blast
        qed
      qed
    qed
  qed
qed

lemma startPayrollJob_completed:
  assumes "startPayrollJob E jobId params w = (snap, w')"
  shows "status (last (hist w')) = S_completed \<longrightarrow>
           (\<exists>w3 tok hn w4. waitForFido E params jobId w3 = (Inr (tok, hn), w4)
              \<and> transactions (last (hist w'))
                  = fst (yearsLoop E jobId params tok hn (length (years params) * length (months params))
                           (years params) ([], 0, w4)))"
proof -
  define T where "T = length (years params) * length (months params)"
  define state where "state = \<lparr> job_id = jobId, status = S_pending, message = MSG_PREPARING,
                 totalMonths = T, processedMonths = 0, transactions = [], summary = None,
                 error = None, createdAt = clock w, updatedAt = clock w \<rparr>"
  define w1 where "w1 = w \<lparr> store := AList.update jobId state (store w), hist := hist w @ [state] \<rparr>"
  have w': "w' = processJob E jobId params w1"
    using assms by (simp add: startPayrollJob_def Let_def w1_def state_def T_def)
  have r: "running jobId T 0 (length (hist w)) w1"
    by (simp add: running_def w1_def update_conv' good_def state_def)
  from processJob_completed [OF r T_def, of E] show ?thesis
    unfolding w' T_def .
qed

text \<open>
  Claim C5. In the sequence of states of a job, from its creation to the last write of
  \<open>processJob\<close>, every state but the last has no transactions and is not completed; the
  last one, which the store then holds, either is completed and carries the accumulated
  transactions with their summary (the count being their number), or is failed and has no
  transactions. The transactions of a completed job are the whole list that the collection
  loop has accumulated over all years and months, run with the token that the wait for the
  approval returned. A snapshot includes the transactions exactly when the status of the
  job is completed, and then it includes the stored ones; \<open>getPayrollJob\<close> returns the
  snapshot of the stored job, and the snapshot that \<open>startPayrollJob\<close> returns has none.
\<close>

theorem transactions_only_when_completed:
  assumes "startPayrollJob E jobId params w = (snap, w')"
    and "xs = drop (length (hist w)) (hist w')"
  shows "(\<forall>x \<in> set (butlast xs). status x \<noteq> S_completed \<and> transactions x = [])
         \<and> (\<forall>x \<in> set xs. status x \<noteq> S_completed \<longrightarrow> transactions x = [])
         \<and> (status (last xs) = S_completed \<longrightarrow>
               summary (last xs) = Some (computeSummary (transactions (last xs)))
               \<and> sum_count (computeSummary (transactions (last xs))) = length (transactions (last xs)))
         \<and> (status (last xs) = S_completed \<longrightarrow>
               (\<exists>w3 tok hn w4. waitForFido E params jobId w3 = (Inr (tok, hn), w4)
                  \<and> transactions (last xs)
                      = fst (yearsLoop E jobId params tok hn
                               (length (years params) * length (months params)) (years params)
                               ([], 0, w4))))
         \<and> map_of (store w') jobId = Some (last xs)
         \<and> (\<forall>job. \<exists>s. toSnapshot (Some job) = Some s
               \<and> snap_transactions s = (if status job = S_completed then Some (transactions job) else None))
         \<and> (\<forall>u. getPayrollJob jobId u = toSnapshot (map_of (store u) jobId))
         \<and> (\<exists>s. snap = Some s \<and> snap_transactions s = None)"
proof -
  from startPayrollJob_trace [OF assms(1)]
  have t: "trace_ok xs"
    and m: "map_of (store w') jobId = Some (last (hist w'))"
    by (simp_all add: assms(2))
  from t have ne: "xs \<noteq> []" by (simp add: trace_ok_def)
  then have lx: "last (hist w') = last xs" by (auto simp: assms(2))
  with m have m': "map_of (store w') jobId = Some (last xs)" by simp
  have acc: "status (last xs) = S_completed \<longrightarrow>
               (\<exists>w3 tok hn w4. waitForFido E params jobId w3 = (Inr (tok, hn), w4)
                  \<and> transactions (last xs)
                      = fst (yearsLoop E jobId params tok hn
                               (length (years params) * length (months params)) (years params)
                               ([], 0, w4)))"
    using startPayrollJob_completed [OF assms(1)] unfolding lx .
  have b: "\<forall>x \<in> set (butlast xs). status x \<noteq> S_completed \<and> transactions x = []"
    using t by (simp add: trace_ok_def)
  have l: "status (last xs) = S_completed
            \<and> summary (last xs) = Some (computeSummary (transactions (last xs)))
          \<or> status (last xs) = S_error \<and> transactions (last xs) = []"
    using t by (auto simp: trace_ok_def)
  have a: "\<forall>x \<in> set xs. status x \<noteq> S_completed \<longrightarrow> transactions x = []"
  proof (intro ballI impI)
    fix x assume x: "x \<in> set xs" and s: "status x \<noteq> S_completed"
    from ne have "xs = butlast xs @ [last xs]" by simp
    with x have "x \<in> set (butlast xs) \<or> x = last xs"
      by (metis Un_iff empty_iff empty_set insert_iff list.simps(15) set_append)
    with b l s show "transactions x = []" by auto
  qed
  have sn: "\<forall>job. \<exists>s. toSnapshot (Some job) = Some s
               \<and> snap_transactions s = (if status job = S_completed then Some (transactions job) else None)"
    by (simp add: toSnapshot_def)
  have g: "\<forall>u. getPayrollJob jobId u = toSnapshot (map_of (store u) jobId)"
    by (simp add: getPayrollJob_def)
  have f: "\<exists>s. snap = Some s \<and> snap_transactions s = None"
    using assms(1)
    by (auto simp: startPayrollJob_def Let_def processJob_begin_def updateJob_def update_conv'
        toSnapshot_def assign_def patch_def)
  have l2: "status (last xs) = S_completed \<longrightarrow>
               summary (last xs) = Some (computeSummary (transactions (last xs)))
               \<and> sum_count (computeSummary (transactions (last xs))) = length (transactions (last xs))"
    using l by (auto simp: sum_count_computeSummary)
  show ?thesis
    by (intro conjI) (rule b a l2 acc m' sn g f)+
qed

theorem transactions_only_when_completed_witness:
  "map (\<lambda>j. (status j, transactions j))
     (drop (length (hist W_sample))
        (hist (snd (startPayrollJob E_sample (S ''job'') P_sample W_sample))))
   = [(S_pending, []), (S_pending, []), (S_auth_wait, []), (S_fetching, []), (S_fetching, []),
      (S_fetching, []), (S_fetching, []), (S_fetching, []),
      (S_completed,
       [\<lparr> year = 2024, month = 1, date = S ''2024-01-01'', category = S ''UNKNOWN'', group = [],
          gross = 1000, deductions = 0, net = 0, currency = S ''KRW'', seqnr = [], fpbeg = [],
          fpend = [] \<rparr>])]
   \<and> map_of (store (snd (startPayrollJob E_sample (S ''job'') P_sample W_sample))) (S ''job'')
       = Some (last (drop (length (hist W_sample))
                  (hist (snd (startPayrollJob E_sample (S ''job'') P_sample W_sample)))))"
proof -
  have 0: "length (hist W_sample) = 0" by (simp add: W_sample_def)
  from arg_cong [OF run_sample, of "map (\<lambda>q. (fst q, snd (snd (snd q))))"]
  have 1: "map (\<lambda>j. (status j, transactions j))
     (drop (length (hist W_sample))
        (hist (snd (startPayrollJob E_sample (S ''job'') P_sample W_sample))))
   = [(S_pending, []), (S_pending, []), (S_auth_wait, []), (S_fetching, []), (S_fetching, []),
      (S_fetching, []), (S_fetching, []), (S_fetching, []),
      (S_completed,
       [\<lparr> year = 2024, month = 1, date = S ''2024-01-01'', category = S ''UNKNOWN'', group = [],
          gross = 1000, deductions = 0, net = 0, currency = S ''KRW'', seqnr = [], fpbeg = [],
          fpend = [] \<rparr>])]"
    by (simp add: 0 comp_def)
  from transactions_only_when_completed
         [of E_sample "S ''job''" P_sample W_sample
             "fst (startPayrollJob E_sample (S ''job'') P_sample W_sample)"
             "snd (startPayrollJob E_sample (S ''job'') P_sample W_sample)", OF _ refl]
  have 2: "map_of (store (snd (startPayrollJob E_sample (S ''job'') P_sample W_sample))) (S ''job'')
       = Some (last (drop (length (hist W_sample))
                  (hist (snd (startPayrollJob E_sample (S ''job'') P_sample W_sample)))))"
    by simp
  from 1 2 show ?thesis by blast
qed

section \<open>The approval timeout\<close>

lemma sent_updateJob [simp]: "sent (updateJob jobId p w) = sent w"
  by (simp add: updateJob_def Let_def split: option.splits)

lemma sent_sleep [simp]: "sent (sleep E ms w) = sent w"
  by (simp add: sleep_def)

lemma store_sleep [simp]: "store (sleep E ms w) = store w" and hist_sleep [simp]: "hist (sleep E ms w) = hist w"
  by (simp_all add: sleep_def)

lemma send_Response:
  "http E (length (sent w)) = Response c b \<Longrightarrow>
   send E rq w =
     (Inr \<lparr> statusCode = c, body = b \<rparr>,
      w \<lparr> clock := clock w + int (lag E (ticks w)), ticks := Suc (ticks w), sent := sent w @ [rq] \<rparr>)"
  by (simp add: send_def Let_def)

lemma send_effect:
  assumes "send E rq w = (r, w')"
  shows "store w' = store w \<and> hist w' = hist w \<and> sent w' = sent w @ [rq]
         \<and> clock w' = clock w + int (lag E (ticks w))
         \<and> (case http E (length (sent w)) of
               Failure m \<Rightarrow> r = Inl (Error m)
             | Response c b \<Rightarrow> r = Inr \<lparr> statusCode = c, body = b \<rparr>)"
  using assms by (auto simp: send_def Let_def split: http_result.splits)

lemma lastPass_mono: "lastPass E n rs le \<Longrightarrow> m \<le> n \<Longrightarrow> lastPass E m rs le"
  unfolding lastPass_def by (auto split: http_result.splits)

lemma noToken_mono: "noToken E n \<Longrightarrow> n \<le> m \<Longrightarrow> noToken E m"
  unfolding noToken_def by (meson le_trans)

lemma noTokenD:
  "noToken E n \<Longrightarrow> n \<le> i \<Longrightarrow> http E i = Response c b \<Longrightarrow> truthy (extractMetaCsrf E b) = None"
  unfolding noToken_def by blast

lemma pollOnce_noToken:
  assumes nt: "noToken E (length (sent w))"
  shows "\<exists>le w'. pollOnce E jobId w = (NoToken le, w') \<and> store w' = store w \<and> hist w' = hist w
           \<and> length (sent w) < length (sent w')
           \<and> lastPass E (length (sent w)) (sent w') le"
proof -
  define n where "n = length (sent w)"
  obtain r1 w1 where s1: "send E initPageRequest w = (r1, w1)"
    by (cases "send E initPageRequest w")
  note e1 = send_effect [OF s1]
  have l1: "length (sent w1) = Suc n" using e1 by (simp add: n_def)
  show ?thesis
  proof (cases "http E n")
    case (Failure m)
    with e1 s1 have "pollOnce E jobId w = (NoToken m, w1)"
      by (simp add: pollOnce_def n_def)
    moreover have "lastPass E n (sent w1) m"
      using Failure e1 by (simp add: lastPass_def n_def)
    ultimately show ?thesis using e1 by (auto simp: n_def)
  next
    case R1: (Response a x)
    have t1: "truthy (extractMetaCsrf E x) = None"
      by (rule noTokenD [OF nt _ R1 [unfolded n_def]]) simp
    from R1 e1 have r1: "r1 = Inr \<lparr> statusCode = a, body = x \<rparr>" by (simp add: n_def)
    obtain r2 w2 where s2: "send E noticeRequest w1 = (r2, w2)"
      by (cases "send E noticeRequest w1")
    note e2 = send_effect [OF s2]
    have l2: "length (sent w2) = Suc (Suc n)" using e2 l1 by simp
    show ?thesis
    proof (cases "http E (Suc n)")
      case (Failure m)
      with e2 l1 s1 r1 t1 s2 have "pollOnce E jobId w = (NoToken m, w2)"
        by (simp add: pollOnce_def)
      moreover have "lastPass E n (sent w2) m"
        using Failure e1 e2 by (simp add: lastPass_def n_def)
      ultimately show ?thesis using e1 e2 by (auto simp: n_def)
    next
      case R2: (Response b y)
      have t2: "truthy (extractMetaCsrf E y) = None"
        by (rule noTokenD [OF nt _ R2 [unfolded n_def]]) simp
      from R2 e2 l1 have r2: "r2 = Inr \<lparr> statusCode = b, body = y \<rparr>" by simp
      obtain r3 w3 where s3: "send E successRequest w2 = (r3, w3)"
        by (cases "send E successRequest w2")
      note e3 = send_effect [OF s3]
      have se3: "sent w3 = sent w @ [initPageRequest, noticeRequest, successRequest]"
        using e1 e2 e3 by simp
      show ?thesis
      proof (cases "http E (Suc (Suc n))")
        case (Failure m)
        with e3 l2 s1 r1 t1 s2 r2 t2 s3 have "pollOnce E jobId w = (NoToken m, w3)"
          by (simp add: pollOnce_def)
        moreover have "lastPass E n (sent w3) m"
          using Failure by (simp add: lastPass_def n_def se3)
        ultimately show ?thesis using e1 e2 e3 by (auto simp: n_def)
      next
        case R3: (Response c z)
        have t3: "truthy (extractMetaCsrf E z) = None"
          by (rule noTokenD [OF nt _ R3 [unfolded n_def]]) simp
        from R3 e3 l2 have r3: "r3 = Inr \<lparr> statusCode = c, body = z \<rparr>" by simp
        from s1 r1 t1 s2 r2 t2 s3 r3 t3
        have "pollOnce E jobId w = (NoToken (pollText a b c), w3)"
          by (simp add: pollOnce_def)
        moreover have "lastPass E n (sent w3) (pollText a b c)"
          using R1 R2 R3 by (simp add: lastPass_def n_def se3)
        ultimately show ?thesis using e1 e2 e3 by (auto simp: n_def)
      qed
    qed
  qed
qed

lemma waitForFido_loop_noToken:
  "noToken E (length (sent w)) \<Longrightarrow>
   \<exists>le w'. waitForFido_loop E params jobId deadline le0 w
              = (Inl (Error (S ''Mobile approval timed out. Last status: '' @ le)), w')
          \<and> store w' = store w \<and> hist w' = hist w
          \<and> (if clock w < deadline then lastPass E (length (sent w)) (sent w') le
              else le = le0 \<and> sent w' = sent w)"
proof (induction E params jobId deadline le0 w rule: waitForFido_loop.induct)
  case (1 E params jobId deadline lastError w)
  show ?case
  proof (cases "clock w < deadline")
    case False
    then show ?thesis by (simp add: waitForFido_loop.simps)
  next
    case True
    from pollOnce_noToken [OF "1.prems", of jobId] obtain le1 w1
      where p: "pollOnce E jobId w = (NoToken le1, w1)" and st: "store w1 = store w"
        and hi: "hist w1 = hist w" and len: "length (sent w) < length (sent w1)"
        and pr: "lastPass E (length (sent w)) (sent w1) le1"
      by blast
    define w2 where "w2 = sleep E (max 500 (pollIntervalSeconds params * 1000)) w1"
    have nt2: "noToken E (length (sent w2))"
      using "1.prems" len by (auto simp: w2_def intro: noToken_mono)
    have "\<exists>le w'. waitForFido_loop E params jobId deadline le1 w2
                  = (Inl (Error (S ''Mobile approval timed out. Last status: '' @ le)), w')
             \<and> store w' = store w2 \<and> hist w' = hist w2
             \<and> (if clock w2 < deadline then lastPass E (length (sent w2)) (sent w') le
                  else le = le1 \<and> sent w' = sent w2)"
      using "1.IH" [OF True p [symmetric] refl nt2 [unfolded w2_def]] unfolding w2_def .
    then obtain le w'
      where r: "waitForFido_loop E params jobId deadline le1 w2
                  = (Inl (Error (S ''Mobile approval timed out. Last status: '' @ le)), w')"
        and st': "store w' = store w2" and hi': "hist w' = hist w2"
        and le: "if clock w2 < deadline then lastPass E (length (sent w2)) (sent w') le
                 else le = le1 \<and> sent w' = sent w2"
      by blast
    have "lastPass E (length (sent w)) (sent w') le"
    proof (cases "clock w2 < deadline")
      case True
      with le have "lastPass E (length (sent w2)) (sent w') le" by simp
      then show ?thesis using len by (auto simp: w2_def intro: lastPass_mono)
    next
      case False
      with le pr show ?thesis by (simp add: w2_def)
    qed
    moreover have "waitForFido_loop E params jobId deadline lastError w
              = (Inl (Error (S ''Mobile approval timed out. Last status: '' @ le)), w')"
      using True p r by (subst waitForFido_loop.simps) (simp add: w2_def)
    ultimately show ?thesis
      using True st hi st' hi' by (auto simp: w2_def)
  qed
qed

lemma processJob_timeout:
  assumes job: "map_of (store w) jobId = Some j0"
    and page: "http E (length (sent w)) = Response c0 b0"
    and tok: "truthy (extractMetaCsrf E b0) = Some t0"
    and login: "http E (Suc (length (sent w))) = Response c1 b1"
    and ok: "\<not> looksLikeLoginFailure b1"
    and none: "noToken E (length (sent w) + 2)"
  shows "\<exists>j le. map_of (store (processJob E jobId params w)) jobId = Some j
           \<and> status j = S_error
           \<and> message j = MSG_JOB_FAILED @ S ''Mobile approval timed out. Last status: '' @ le
           \<and> error j = Some (S ''Mobile approval timed out. Last status: '' @ le)
           \<and> map status (drop (length (hist w)) (hist (processJob E jobId params w)))
               = [S_pending, S_auth_wait, S_error]
           \<and> (if 0 < waitAuthSeconds params
               then lastPass E (length (sent w) + 2) (sent (processJob E jobId params w)) le
               else le = S ''no poll yet''
                    \<and> sent (processJob E jobId params w)
                        = sent w @ [loginPageRequest, loginRequest E t0 params])"
proof -
  define TO where "TO = S ''Mobile approval timed out. Last status: ''"
  define p0 where "p0 = patch \<lparr> p_status := Some S_pending, p_message := Some MSG_CONNECTING \<rparr>"
  define w0 where "w0 = updateJob jobId p0 w"
  define j1 where "j1 = (assign j0 p0) \<lparr> updatedAt := clock w \<rparr>"
  from updateJob_present [OF job, of p0]
  have st0: "map_of (store w0) jobId = Some j1" and hi0: "hist w0 = hist w @ [j1]"
    by (simp_all add: w0_def j1_def)
  have se0: "sent w0 = sent w" by (simp add: w0_def)
  define w1 where "w1 = w0 \<lparr> clock := clock w0 + int (lag E (ticks w0)), ticks := Suc (ticks w0),
                             sent := sent w0 @ [loginPageRequest] \<rparr>"
  have s1: "send E loginPageRequest w0 = (Inr \<lparr> statusCode = c0, body = b0 \<rparr>, w1)"
    unfolding w1_def by (rule send_Response) (simp add: se0 page)
  define p1 where "p1 = patch \<lparr> p_status := Some S_auth_wait, p_message := Some MSG_AUTH_WAIT \<rparr>"
  define w2 where "w2 = updateJob jobId p1 w1"
  define j2 where "j2 = (assign j1 p1) \<lparr> updatedAt := clock w1 \<rparr>"
  have st1: "map_of (store w1) jobId = Some j1" using st0 by (simp add: w1_def)
  from updateJob_present [OF st1, of p1]
  have st2: "map_of (store w2) jobId = Some j2" and hi2: "hist w2 = hist w @ [j1, j2]"
    by (simp_all add: w2_def j2_def w1_def hi0)
  have se2: "sent w2 = sent w @ [loginPageRequest]" by (simp add: w2_def w1_def se0)
  define w3 where "w3 = w2 \<lparr> clock := clock w2 + int (lag E (ticks w2)), ticks := Suc (ticks w2),
                             sent := sent w2 @ [loginRequest E t0 params] \<rparr>"
  have s3: "send E (loginRequest E t0 params) w2 = (Inr \<lparr> statusCode = c1, body = b1 \<rparr>, w3)"
    unfolding w3_def by (rule send_Response) (simp add: se2 login)
  have pl: "postLoginProcess E t0 params w2 = (Inr (), w3)"
    by (simp add: postLoginProcess_def s3 ok)
  have se3: "sent w3 = sent w @ [loginPageRequest, loginRequest E t0 params]"
    by (simp add: w3_def se2)
  have len3: "length (sent w3) = length (sent w) + 2" by (simp add: se3)
  have st3: "map_of (store w3) jobId = Some j2" and hi3: "hist w3 = hist w @ [j1, j2]"
    using st2 hi2 by (simp_all add: w3_def)
  define deadline where "deadline = clock w3 + waitAuthSeconds params * 1000"
  have nt: "noToken E (length (sent w3))" using none by (simp add: len3)
  from waitForFido_loop_noToken [OF nt, of params jobId deadline "S ''no poll yet''"]
  obtain le w4 where
    lp: "waitForFido_loop E params jobId deadline (S ''no poll yet'') w3
           = (Inl (Error (TO @ le)), w4)"
    and st4: "store w4 = store w3" and hi4: "hist w4 = hist w3"
    and le: "if clock w3 < deadline then lastPass E (length (sent w3)) (sent w4) le
             else le = S ''no poll yet'' \<and> sent w4 = sent w3"
    unfolding TO_def by blast
  have wf: "waitForFido E params jobId w3 = (Inl (Error (TO @ le)), w4)"
    using lp by (simp add: waitForFido_def deadline_def Let_def)
  define p4 where "p4 = patch \<lparr> p_status := Some S_error,
                               p_message := Some (MSG_JOB_FAILED @ TO @ le),
                               p_error := Some (TO @ le) \<rparr>"
  define j5 where "j5 = (assign j2 p4) \<lparr> updatedAt := clock w4 \<rparr>"
  have run: "processJob E jobId params w = updateJob jobId p4 w4"
    by (simp add: processJob_def processJob_begin_def Let_def w0_def [symmetric] p0_def [symmetric]
        s1 tok p1_def [symmetric] w2_def [symmetric] pl wf failJob_def p4_def)
  have st4': "map_of (store w4) jobId = Some j2" using st3 st4 by simp
  from updateJob_present [OF st4', of p4]
  have st5: "map_of (store (updateJob jobId p4 w4)) jobId = Some j5"
    and hi5: "hist (updateJob jobId p4 w4) = hist w @ [j1, j2, j5]"
    by (simp_all add: j5_def hi4 hi3)
  have f1: "status j1 = S_pending" by (simp add: j1_def p0_def assign_def patch_def)
  have f2: "status j2 = S_auth_wait" by (simp add: j2_def p1_def assign_def patch_def)
  have f5: "status j5 = S_error" "message j5 = MSG_JOB_FAILED @ TO @ le"
    "error j5 = Some (TO @ le)"
    by (simp_all add: j5_def p4_def assign_def patch_def)
  have c: "clock w3 < deadline \<longleftrightarrow> 0 < waitAuthSeconds params"
    by (simp add: deadline_def)
  have tail: "if 0 < waitAuthSeconds params
              then lastPass E (length (sent w) + 2) (sent (updateJob jobId p4 w4)) le
              else le = S ''no poll yet''
                   \<and> sent (updateJob jobId p4 w4) = sent w @ [loginPageRequest, loginRequest E t0 params]"
    using le c len3 se3 by (auto split: if_splits)
  show ?thesis
    unfolding run TO_def [symmetric] using st5 hi5 f1 f2 f5 tail by simp
qed

text \<open>
  Claim C3, amended. Start a job on a server whose login page carries a token and which accepts the
  login, and let no response of any later request carry a token. Then the job goes through
  the states pending, pending, waiting for approval and failed, and through no other; the
  store holds the failed state, whose message and error are the timeout text followed by
  the last status. When \<open>waitAuthSeconds\<close> is positive the last status comes from the last
  pass of the polling loop, which is the end of the list of requests sent: when the last
  request sent failed, it is a probe and the last status is its error text; otherwise the
  last three requests sent are the three probes and the last status names the status codes
  of their three responses, in this order. When \<open>waitAuthSeconds\<close> is not positive the loop
  body never runs, the login is the last request sent, and the last status is
  \<open>no poll yet\<close>.
\<close>

theorem approval_timeout_ends_in_error:
  assumes "startPayrollJob E jobId params w = (snap, w')"
    and "http E (length (sent w)) = Response c0 b0"
    and "truthy (extractMetaCsrf E b0) = Some t0"
    and "http E (Suc (length (sent w))) = Response c1 b1"
    and "\<not> looksLikeLoginFailure b1"
    and "\<forall>i \<ge> length (sent w) + 2. \<forall>c b. http E i = Response c b
           \<longrightarrow> truthy (extractMetaCsrf E b) = None"
  shows "\<exists>j le. map_of (store w') jobId = Some j
           \<and> status j = S_error
           \<and> message j = MSG_JOB_FAILED @ S ''Mobile approval timed out. Last status: '' @ le
           \<and> error j = Some (S ''Mobile approval timed out. Last status: '' @ le)
           \<and> map status (drop (length (hist w)) (hist w'))
               = [S_pending, S_pending, S_auth_wait, S_error]
           \<and> (if 0 < waitAuthSeconds params
               then (case http E (length (sent w') - 1) of
                       Failure m \<Rightarrow>
                         le = m \<and> length (sent w) + 2 < length (sent w')
                         \<and> last (sent w') \<in> {initPageRequest, noticeRequest, successRequest}
                     | Response c z \<Rightarrow>
                         length (sent w) + 2 + 3 \<le> length (sent w')
                         \<and> drop (length (sent w') - 3) (sent w')
                             = [initPageRequest, noticeRequest, successRequest]
                         \<and> (\<exists>a x b y. http E (length (sent w') - 3) = Response a x
                               \<and> http E (length (sent w') - 2) = Response b y
                               \<and> le = pollText a b c))
               else le = S ''no poll yet''
                    \<and> sent w' = sent w @ [loginPageRequest, loginRequest E t0 params])"
proof -
  define state where "state = \<lparr> job_id = jobId, status = S_pending, message = MSG_PREPARING,
      totalMonths = length (years params) * length (months params), processedMonths = 0,
      transactions = [], summary = None, error = None, createdAt = clock w, updatedAt = clock w \<rparr>"
  define w1 where "w1 = w \<lparr> store := AList.update jobId state (store w), hist := hist w @ [state] \<rparr>"
  have run: "w' = processJob E jobId params w1"
    using assms(1) by (auto simp: startPayrollJob_def Let_def w1_def state_def)
  have job: "map_of (store w1) jobId = Some state" by (simp add: w1_def update_conv')
  have se: "sent w1 = sent w" and hi: "hist w1 = hist w @ [state]" by (simp_all add: w1_def)
  have nt: "noToken E (length (sent w1) + 2)"
    using assms(6) by (simp add: noToken_def se)
  have "\<exists>j le. map_of (store w') jobId = Some j
           \<and> status j = S_error
           \<and> message j = MSG_JOB_FAILED @ S ''Mobile approval timed out. Last status: '' @ le
           \<and> error j = Some (S ''Mobile approval timed out. Last status: '' @ le)
           \<and> map status (drop (length (hist w1)) (hist w')) = [S_pending, S_auth_wait, S_error]
           \<and> (if 0 < waitAuthSeconds params
               then lastPass E (length (sent w1) + 2) (sent w') le
               else le = S ''no poll yet''
                    \<and> sent w' = sent w1 @ [loginPageRequest, loginRequest E t0 params])"
    unfolding run
    by (rule processJob_timeout [of w1 jobId state E c0 b0 t0 c1 b1 params])
       (use assms job nt in \<open>simp_all add: se\<close>)
  then obtain j le where j: "map_of (store w') jobId = Some j"
    "status j = S_error"
    "message j = MSG_JOB_FAILED @ S ''Mobile approval timed out. Last status: '' @ le"
    "error j = Some (S ''Mobile approval timed out. Last status: '' @ le)"
    and tr: "map status (drop (length (hist w1)) (hist w')) = [S_pending, S_auth_wait, S_error]"
    and le: "if 0 < waitAuthSeconds params
               then lastPass E (length (sent w1) + 2) (sent w') le
               else le = S ''no poll yet''
                    \<and> sent w' = sent w1 @ [loginPageRequest, loginRequest E t0 params]"
    by (elim exE conjE) (rule that)
  have "grows w1 w'"
  proof -
    have "running jobId (length (years params) * length (months params)) 0 (length (hist w)) w1"
      by (simp add: running_def job hi good_def state_def)
    from processJob_trace [OF this refl] show ?thesis unfolding run by blast
  qed
  then obtain zs where zs: "hist w' = hist w @ state # zs"
    by (auto simp: grows_def hi)
  with tr have "map status zs = [S_pending, S_auth_wait, S_error]" by (simp add: hi)
  with zs have tr': "map status (drop (length (hist w)) (hist w'))
               = [S_pending, S_pending, S_auth_wait, S_error]"
    by (simp add: state_def)
  show ?thesis
    by (rule exI [of _ j], rule exI [of _ le])
       (use j le tr' in \<open>auto simp: se lastPass_def split: if_splits http_result.splits\<close>)
qed

theorem approval_timeout_ends_in_error_witness:
  "map_option (\<lambda>j. (status j, message j, error j))
     (map_of (store (snd (startPayrollJob E_slow (S ''job'') P_short W_sample))) (S ''job''))
   = Some (S_error,
           MSG_JOB_FAILED
           @ S ''Mobile approval timed out. Last status: poll: init=200 notice=204 success=203'',
           Some (S ''Mobile approval timed out. Last status: poll: init=200 notice=204 success=203''))
   \<and> length (sent (snd (startPayrollJob E_slow (S ''job'') P_short W_sample))) = 8"
proof -
  define w' where "w' = snd (startPayrollJob E_slow (S ''job'') P_short W_sample)"
  have h0: "startPayrollJob E_slow (S ''job'') P_short W_sample
              = (fst (startPayrollJob E_slow (S ''job'') P_short W_sample), w')"
    by (simp add: w'_def)
  have h1: "http E_slow (length (sent W_sample)) = Response 200 (S ''L'')"
    by (simp add: E_slow_def W_sample_def)
  have h2: "truthy (extractMetaCsrf E_slow (S ''L'')) = Some (S ''tok'')"
    by (simp add: E_slow_def E_sample_def truthy_def extractMetaCsrf_def normalizer_eval)
  have h3: "http E_slow (Suc (length (sent W_sample))) = Response 200 (S ''ok'')"
    by (simp add: E_slow_def W_sample_def)
  have h4: "\<not> looksLikeLoginFailure (S ''ok'')"
    by (simp add: job_eval normalizer_eval)
  have h5: "\<forall>i \<ge> length (sent W_sample) + 2. \<forall>c b. http E_slow i = Response c b
              \<longrightarrow> truthy (extractMetaCsrf E_slow b) = None"
    by (simp add: E_slow_def E_sample_def W_sample_def truthy_def extractMetaCsrf_def S_def)
  have n: "length (sent w') = 8"
    unfolding w'_def
    by (simp add: job_eval normalizer_eval E_slow_def E_sample_def P_short_def P_sample_def
        W_sample_def)
  have p: "0 < waitAuthSeconds P_short" by (simp add: P_short_def)
  from approval_timeout_ends_in_error [OF h0 h1 h2 h3 h4 h5] p
  obtain j le
    where j: "map_of (store w') (S ''job'') = Some j"
      "status j = S_error"
      "message j = MSG_JOB_FAILED @ S ''Mobile approval timed out. Last status: '' @ le"
      "error j = Some (S ''Mobile approval timed out. Last status: '' @ le)"
      and le: "(case http E_slow (length (sent w') - 1) of
                  Failure m \<Rightarrow>
                    le = m \<and> length (sent W_sample) + 2 < length (sent w')
                    \<and> last (sent w') \<in> {initPageRequest, noticeRequest, successRequest}
                | Response c z \<Rightarrow>
                    length (sent W_sample) + 2 + 3 \<le> length (sent w')
                    \<and> drop (length (sent w') - 3) (sent w')
                        = [initPageRequest, noticeRequest, successRequest]
                    \<and> (\<exists>a x b y. http E_slow (length (sent w') - 3) = Response a x
                          \<and> http E_slow (length (sent w') - 2) = Response b y
                          \<and> le = pollText a b c))"
    by auto
  from le have "le = pollText 200 204 203"
    unfolding n by (auto simp: E_slow_def)
  also have "\<dots> = S ''poll: init=200 notice=204 success=203''"
    by (simp add: pollText_def normalizer_eval)
  finally have "S ''Mobile approval timed out. Last status: '' @ le
      = S ''Mobile approval timed out. Last status: poll: init=200 notice=204 success=203''"
    by (simp add: S_def)
  with j n show ?thesis unfolding w'_def [symmetric] by simp
qed

theorem approval_timeout_no_poll_counterexample:
  "map_option (\<lambda>j. (status j, message j))
     (map_of (store (snd (startPayrollJob E_slow (S ''job'') (P_sample \<lparr> waitAuthSeconds := 0 \<rparr>)
                            W_sample)))
        (S ''job''))
   = Some (S_error, MSG_JOB_FAILED @ S ''Mobile approval timed out. Last status: no poll yet'')
   \<and> map url (sent (snd (startPayrollJob E_slow (S ''job'') (P_sample \<lparr> waitAuthSeconds := 0 \<rparr>)
                            W_sample)))
     = [LOGIN_PAGE, LOGIN_PROC]"
  by (simp add: job_eval normalizer_eval E_slow_def E_sample_def P_sample_def W_sample_def)

section \<open>The stale-session recovery\<close>

lemma store_updateJob_present:
  "(map_of (store (updateJob jobId p w)) jobId = None) = (map_of (store w) jobId = None)"
  by (auto simp: updateJob_def Let_def update_conv' split: option.splits)







lemma steady_refl [simp]: "steady jobId w w"
  by (simp add: steady_def split: option.splits)



















end
